theory Spec2Isabelle
  imports Main "HOL-Library.Monad_Syntax"
begin

section \<open>JavaScript values\<close>

text \<open>
  The dashboard server (\<^verbatim>\<open>src/neuroloopy/dashboard/server.js\<close>) handles values that come out of
  \<^verbatim>\<open>express.json()\<close>, coerces them with \<^verbatim>\<open>parseFloat\<close>, \<^verbatim>\<open>parseInt\<close> and \<^verbatim>\<open>Boolean\<close>, and
  writes them back with \<^verbatim>\<open>JSON.stringify\<close>. A number is modelled by its decimal notation:
  \<open>Dec m e\<close> stands for \<open>m * 10 ^ e\<close>, the value that the shortest decimal numeral of the
  number denotes. Rounding to binary64 is outside the model (a numeral of more than 17
  significant digits, or beyond the binary64 range, denotes itself), and so is the sign of
  zero, which none of the operations below lets a caller observe.
\<close>

datatype jsnum = NaN | PosInf | NegInf | Dec int int

datatype jsval =
    JUndefined
  | JNull
  | JBool bool
  | JNum jsnum
  | JStr string
  | JArr "jsval list"
  | JObj "(string \<times> jsval) list"

text \<open>
  \<open>JObj\<close> lists the own properties of a plain object in creation order. Reading a property
  that is missing gives \<^verbatim>\<open>undefined\<close>. The server only reads the keys \<^verbatim>\<open>value\<close>, \<^verbatim>\<open>rep\<close>,
  \<^verbatim>\<open>params\<close>, \<^verbatim>\<open>sent\<close> and \<^verbatim>\<open>timestamp\<close>, none of which an array, a string, a number or a
  boolean has, so on those the read gives \<^verbatim>\<open>undefined\<close> too.
\<close>

fun get_prop :: "jsval \<Rightarrow> string \<Rightarrow> jsval" where
  "get_prop (JObj ps) k = (case map_of ps k of None \<Rightarrow> JUndefined | Some v \<Rightarrow> v)"
| "get_prop _ k = JUndefined"

fun ToBoolean :: "jsval \<Rightarrow> bool" where
  "ToBoolean JUndefined = False"
| "ToBoolean JNull = False"
| "ToBoolean (JBool b) = b"
| "ToBoolean (JNum NaN) = False"
| "ToBoolean (JNum (Dec m e)) = (m \<noteq> 0)"
| "ToBoolean (JNum _) = True"
| "ToBoolean (JStr s) = (s \<noteq> [])"
| "ToBoolean (JArr _) = True"
| "ToBoolean (JObj _) = True"

fun Array_isArray :: "jsval \<Rightarrow> bool" where
  "Array_isArray (JArr _) = True"
| "Array_isArray _ = False"

subsection \<open>Numbers to strings\<close>

definition digit_char :: "nat \<Rightarrow> char" where
  "digit_char d = ''0123456789abcdef'' ! (d mod 16)"

function digits_of :: "nat \<Rightarrow> string" where
  "digits_of n = (if n < 10 then [digit_char n] else digits_of (n div 10) @ [digit_char (n mod 10)])"
  by pat_completeness auto
termination
  by (relation "measure id") auto

declare digits_of.simps [simp del]

text \<open>Trailing zeros of the mantissa move into the exponent; zero is \<open>(0, 0)\<close>.\<close>

function normalise :: "int \<Rightarrow> int \<Rightarrow> int \<times> int" where
  "normalise m e =
     (if m = 0 then (0, 0)
      else if m mod 10 = 0 then normalise (m div 10) (e + 1)
      else (m, e))"
  by pat_completeness auto
termination
  by (relation "measure (\<lambda>(m, e). nat \<bar>m\<bar>)") auto

declare normalise.simps [simp del]

definition mk_dec :: "int \<Rightarrow> int \<Rightarrow> jsnum" where
  "mk_dec m e = (case normalise m e of (m', e') \<Rightarrow> Dec m' e')"

definition num_of_int :: "int \<Rightarrow> jsnum" where
  "num_of_int i = mk_dec i 0"

text \<open>
  \<^verbatim>\<open>Number::toString\<close> of ECMA-262 for radix 10: with \<open>k\<close> digits \<open>ds\<close> and the decimal point
  after the \<open>n\<close>-th digit, the notation is plain for \<open>-6 < n \<le> 21\<close> and exponential otherwise.
\<close>

definition render_digits :: "string \<Rightarrow> int \<Rightarrow> string" where
  "render_digits ds n =
     (let k = int (length ds) in
      if k \<le> n \<and> n \<le> 21 then ds @ replicate (nat (n - k)) CHR ''0''
      else if 0 < n \<and> n \<le> 21 then take (nat n) ds @ ''.'' @ drop (nat n) ds
      else if -6 < n \<and> n \<le> 0 then ''0.'' @ replicate (nat (- n)) CHR ''0'' @ ds
      else (if k = 1 then ds else take 1 ds @ ''.'' @ drop 1 ds)
           @ ''e'' @ (if 0 \<le> n - 1 then ''+'' else ''-'') @ digits_of (nat \<bar>n - 1\<bar>))"

fun Number_toString :: "jsnum \<Rightarrow> string" where
  "Number_toString NaN = ''NaN''"
| "Number_toString PosInf = ''Infinity''"
| "Number_toString NegInf = ''-Infinity''"
| "Number_toString (Dec m e) =
     (case normalise m e of (m', e') \<Rightarrow>
        if m' = 0 then ''0''
        else (if m' < 0 then ''-'' else '''')
             @ (let ds = digits_of (nat \<bar>m'\<bar>) in render_digits ds (int (length ds) + e')))"

subsection \<open>Values to strings\<close>

text \<open>
  \<^verbatim>\<open>ToString\<close>, as a template literal, \<^verbatim>\<open>Array.prototype.join\<close>, \<^verbatim>\<open>parseFloat\<close> and
  \<^verbatim>\<open>parseInt\<close> apply it. \<open>None\<close> is a thrown \<^verbatim>\<open>TypeError\<close>: a parsed object that has an own
  property \<^verbatim>\<open>toString\<close> shadows \<^verbatim>\<open>Object.prototype.toString\<close> with a value that is not
  callable, and \<^verbatim>\<open>Object.prototype.valueOf\<close> returns no primitive. An array element that is
  \<^verbatim>\<open>null\<close> or \<^verbatim>\<open>undefined\<close> joins as the empty string.
\<close>

fun intersperse :: "string \<Rightarrow> string list \<Rightarrow> string" where
  "intersperse sep [] = []"
| "intersperse sep [x] = x"
| "intersperse sep (x # y # ys) = x @ sep @ intersperse sep (y # ys)"

fun sequence_opt :: "'a option list \<Rightarrow> 'a list option" where
  "sequence_opt [] = Some []"
| "sequence_opt (x # xs) =
     (case x of None \<Rightarrow> None
      | Some y \<Rightarrow> (case sequence_opt xs of None \<Rightarrow> None | Some ys \<Rightarrow> Some (y # ys)))"

fun ToString :: "jsval \<Rightarrow> string option"
  and join_element :: "jsval \<Rightarrow> string option" where
  "ToString JUndefined = Some ''undefined''"
| "ToString JNull = Some ''null''"
| "ToString (JBool b) = Some (if b then ''true'' else ''false'')"
| "ToString (JNum x) = Some (Number_toString x)"
| "ToString (JStr s) = Some s"
| "ToString (JArr xs) = map_option (intersperse '','') (sequence_opt (map join_element xs))"
| "ToString (JObj ps) = (if ''toString'' \<in> fst ` set ps then None else Some ''[object Object]'')"
| "join_element v = (if v = JUndefined \<or> v = JNull then Some [] else ToString v)"

definition Array_join :: "jsval list \<Rightarrow> string \<Rightarrow> string option" where
  "Array_join xs sep = map_option (intersperse sep) (sequence_opt (map join_element xs))"

subsection \<open>Strings to numbers\<close>

text \<open>
  A \<open>string\<close> is a list of 8-bit characters; a character beyond ASCII stands as the bytes
  of its UTF-8 encoding, as it travels in a request body. The white space that is skipped
  before a numeral is ECMA-262's \<^verbatim>\<open>StrWhiteSpaceChar\<close>: the six ASCII characters, the
  no-break space U+00A0 (two bytes) and, in three bytes each, U+1680, U+2000 to U+200A,
  the line and paragraph separators U+2028 and U+2029, U+202F, U+205F, U+3000 and U+FEFF.
\<close>

definition is_space :: "char \<Rightarrow> bool" where
  "is_space c = (c \<in> set [CHR 0x09, CHR 0x0A, CHR 0x0B, CHR 0x0C, CHR 0x0D, CHR 0x20])"

definition wide_spaces :: "string list" where
  "wide_spaces =
     [[CHR 0xE1, CHR 0x9A, CHR 0x80],
      [CHR 0xE2, CHR 0x80, CHR 0x80], [CHR 0xE2, CHR 0x80, CHR 0x81],
      [CHR 0xE2, CHR 0x80, CHR 0x82], [CHR 0xE2, CHR 0x80, CHR 0x83],
      [CHR 0xE2, CHR 0x80, CHR 0x84], [CHR 0xE2, CHR 0x80, CHR 0x85],
      [CHR 0xE2, CHR 0x80, CHR 0x86], [CHR 0xE2, CHR 0x80, CHR 0x87],
      [CHR 0xE2, CHR 0x80, CHR 0x88], [CHR 0xE2, CHR 0x80, CHR 0x89],
      [CHR 0xE2, CHR 0x80, CHR 0x8A],
      [CHR 0xE2, CHR 0x80, CHR 0xA8], [CHR 0xE2, CHR 0x80, CHR 0xA9],
      [CHR 0xE2, CHR 0x80, CHR 0xAF],
      [CHR 0xE2, CHR 0x81, CHR 0x9F],
      [CHR 0xE3, CHR 0x80, CHR 0x80],
      [CHR 0xEF, CHR 0xBB, CHR 0xBF]]"

function skip_space :: "string \<Rightarrow> string" where
  "skip_space s =
     (if s \<noteq> [] \<and> is_space (hd s) then skip_space (tl s)
      else if take 2 s = [CHR 0xC2, CHR 0xA0] then skip_space (drop 2 s)
      else if 3 \<le> length s \<and> take 3 s \<in> set wide_spaces then skip_space (drop 3 s)
      else s)"
  by pat_completeness auto
termination
proof (relation "measure length")
  show "wf (measure length)" by simp
next
  fix s :: string
  assume "s \<noteq> [] \<and> is_space (hd s)"
  then show "(tl s, s) \<in> measure length" by (cases s) simp_all
next
  fix s :: string
  assume "take 2 s = [CHR 0xC2, CHR 0xA0]"
  then have "s \<noteq> []" by auto
  then show "(drop 2 s, s) \<in> measure length" by (cases s) simp_all
next
  fix s :: string
  assume "3 \<le> length s \<and> take 3 s \<in> set wide_spaces"
  then have "0 < length s" by linarith
  then show "(drop 3 s, s) \<in> measure length" by simp
qed

declare skip_space.simps [simp del]

definition is_digit :: "char \<Rightarrow> bool" where
  "is_digit c = (c \<in> set ''0123456789'')"

definition is_hex_digit :: "char \<Rightarrow> bool" where
  "is_hex_digit c = (c \<in> set ''0123456789abcdefABCDEF'')"

definition digit_val :: "char \<Rightarrow> nat" where
  "digit_val c =
     (if is_digit c then of_char c - 48
      else if c \<in> set ''abcdef'' then of_char c - 87
      else of_char c - 55)"

definition nat_of_digits :: "nat \<Rightarrow> string \<Rightarrow> nat" where
  "nat_of_digits radix ds = foldl (\<lambda>a c. radix * a + digit_val c) 0 ds"

definition split_sign :: "string \<Rightarrow> bool \<times> string" where
  "split_sign s =
     (case s of
        [] \<Rightarrow> (False, [])
      | c # r \<Rightarrow> if c = CHR ''-'' then (True, r) else if c = CHR ''+'' then (False, r) else (False, s))"

definition signed :: "bool \<Rightarrow> nat \<Rightarrow> int" where
  "signed neg n = (if neg then - int n else int n)"

definition parse_exponent :: "string \<Rightarrow> int" where
  "parse_exponent s =
     (case s of
        [] \<Rightarrow> 0
      | c # r \<Rightarrow>
          if c = CHR ''e'' \<or> c = CHR ''E'' then
            (case split_sign r of (neg, r') \<Rightarrow>
               let ds = takeWhile is_digit r'
               in if ds = [] then 0 else signed neg (nat_of_digits 10 ds))
          else 0)"

text \<open>
  \<^verbatim>\<open>parseFloat\<close> on a string: leading white space is skipped, the longest prefix that is a
  decimal literal is read, and a string with no such prefix gives \<^verbatim>\<open>NaN\<close>. The numeral
  that is read denotes itself: JavaScript goes on to round it to the nearest binary64
  value, which changes a numeral of more than 17 significant digits
  (\<^verbatim>\<open>"0.1234567890123456789"\<close> becomes 0.12345678901234568) and one beyond the binary64
  range (\<^verbatim>\<open>"1e400"\<close> becomes \<^verbatim>\<open>Infinity\<close>); that step is not modelled. On the notation
  that \<^verbatim>\<open>Number::toString\<close> writes for a binary64 value the step is the identity.
\<close>

definition parseFloat_string :: "string \<Rightarrow> jsnum" where
  "parseFloat_string s =
     (case split_sign (skip_space s) of (neg, r) \<Rightarrow>
        if take 8 r = ''Infinity'' then (if neg then NegInf else PosInf)
        else
          let ip = takeWhile is_digit r;
              r1 = dropWhile is_digit r;
              has_dot = (take 1 r1 = ''.'');
              fp = (if has_dot then takeWhile is_digit (drop 1 r1) else []);
              r2 = (if has_dot then dropWhile is_digit (drop 1 r1) else r1)
          in if ip = [] \<and> fp = [] then NaN
             else mk_dec (signed neg (nat_of_digits 10 (ip @ fp)))
                         (parse_exponent r2 - int (length fp)))"

text \<open>
  \<^verbatim>\<open>parseInt\<close> on a string, called without a radix: white space, a sign, then hexadecimal
  digits after \<^verbatim>\<open>0x\<close> and decimal digits otherwise; no digit gives \<^verbatim>\<open>NaN\<close>. Here too the
  integer that is read denotes itself, where JavaScript rounds one beyond \<open>2 ^ 53\<close> to
  binary64 (\<^verbatim>\<open>"9007199254740993"\<close> becomes 9007199254740992).
\<close>

definition parseInt_string :: "string \<Rightarrow> jsnum" where
  "parseInt_string s =
     (case split_sign (skip_space s) of (neg, r) \<Rightarrow>
        if take 2 r = ''0x'' \<or> take 2 r = ''0X'' then
          (let ds = takeWhile is_hex_digit (drop 2 r)
           in if ds = [] then NaN else num_of_int (signed neg (nat_of_digits 16 ds)))
        else
          (let ds = takeWhile is_digit r
           in if ds = [] then NaN else num_of_int (signed neg (nat_of_digits 10 ds))))"

text \<open>Both built-ins convert their argument to a string first, which may throw.\<close>

definition parseFloat :: "jsval \<Rightarrow> jsnum option" where
  "parseFloat v = map_option parseFloat_string (ToString v)"

definition parseInt :: "jsval \<Rightarrow> jsnum option" where
  "parseInt v = map_option parseInt_string (ToString v)"

subsection \<open>JSON.stringify\<close>

definition json_escape_char :: "char \<Rightarrow> string" where
  "json_escape_char c =
     (if c = CHR 0x22 then [CHR 0x5C, CHR 0x22]
      else if c = CHR 0x5C then [CHR 0x5C, CHR 0x5C]
      else if c = CHR 0x08 then [CHR 0x5C, CHR ''b'']
      else if c = CHR 0x09 then [CHR 0x5C, CHR ''t'']
      else if c = CHR 0x0A then [CHR 0x5C, CHR ''n'']
      else if c = CHR 0x0C then [CHR 0x5C, CHR ''f'']
      else if c = CHR 0x0D then [CHR 0x5C, CHR ''r'']
      else if (of_char c :: nat) < 32 then
        [CHR 0x5C, CHR ''u'', CHR ''0'', CHR ''0'',
         digit_char (of_char c div 16), digit_char (of_char c mod 16)]
      else [c])"

definition quote_json :: "string \<Rightarrow> string" where
  "quote_json s = [CHR 0x22] @ concat (map json_escape_char s) @ [CHR 0x22]"

text \<open>
  A property whose value is \<^verbatim>\<open>undefined\<close> is left out of an object, and \<^verbatim>\<open>undefined\<close> in an
  array is written \<^verbatim>\<open>null\<close>, as are \<^verbatim>\<open>NaN\<close> and the infinities. (At top level
  \<^verbatim>\<open>JSON.stringify(undefined)\<close> is no string at all; every call of the server passes an
  object literal.)
\<close>

fun JSON_stringify :: "jsval \<Rightarrow> string" where
  "JSON_stringify JUndefined = ''null''"
| "JSON_stringify JNull = ''null''"
| "JSON_stringify (JBool b) = (if b then ''true'' else ''false'')"
| "JSON_stringify (JNum x) = (case x of Dec m e \<Rightarrow> Number_toString x | _ \<Rightarrow> ''null'')"
| "JSON_stringify (JStr s) = quote_json s"
| "JSON_stringify (JArr xs) = ''['' @ intersperse '','' (map JSON_stringify xs) @ '']''"
| "JSON_stringify (JObj ps) =
     ''{'' @ intersperse '',''
       (map (\<lambda>p. quote_json (fst p) @ '':'' @ JSON_stringify (snd p))
            (filter (\<lambda>p. snd p \<noteq> JUndefined) ps)) @ ''}''"

section \<open>The server state\<close>

text \<open>
  \<^verbatim>\<open>latestData\<close> holds one slot per channel, \<^verbatim>\<open>null\<close> or the last record written.
  \<^verbatim>\<open>clients\<close> is a JavaScript \<^verbatim>\<open>Set\<close> of sockets: insertion-ordered and free of duplicates,
  here a list of socket identities. Each socket has a \<^verbatim>\<open>readyState\<close>, which the transport
  changes, and \<open>outbox\<close> records what \<^verbatim>\<open>send\<close> handed to it, oldest message first.
\<close>

record latest =
  clf_data :: jsval
  mc_data :: jsval
  feedback_status :: jsval
  run_number :: jsval
  feedback_number :: jsval

datatype ready_state = CONNECTING | OPEN | CLOSING | CLOSED

type_synonym socket = nat

record server =
  latestData :: latest
  clients :: "socket list"
  readyState :: "socket \<Rightarrow> ready_state"
  outbox :: "socket \<Rightarrow> string list"

record response =
  status :: nat
  body :: jsval

definition init_latest :: latest where
  "init_latest =
     \<lparr>clf_data = JNull, mc_data = JNull, feedback_status = JNull,
      run_number = JNull, feedback_number = JNull\<rparr>"

definition init_server :: server where
  "init_server =
     \<lparr>latestData = init_latest, clients = [],
      readyState = (\<lambda>_. CONNECTING), outbox = (\<lambda>_. [])\<rparr>"

definition Set_add :: "'a \<Rightarrow> 'a list \<Rightarrow> 'a list" where
  "Set_add x xs = (if x \<in> set xs then xs else xs @ [x])"

definition Set_delete :: "'a \<Rightarrow> 'a list \<Rightarrow> 'a list" where
  "Set_delete x xs = filter (\<lambda>y. y \<noteq> x) xs"

definition ws_send :: "socket \<Rightarrow> string \<Rightarrow> server \<Rightarrow> server" where
  "ws_send ws message s = s\<lparr>outbox := (outbox s)(ws := outbox s ws @ [message])\<rparr>"

subsection \<open>Broadcast\<close>

text \<open>
  \<^verbatim>\<open>
  function broadcast(data) {
      const message = JSON.stringify(data);
      clients.forEach(client => {
          if (client.readyState === WebSocket.OPEN) {
              client.send(message);
          }
      });
  }
  \<close>
\<close>

definition send_if_open :: "string \<Rightarrow> socket \<Rightarrow> server \<Rightarrow> server" where
  "send_if_open message client s =
     (if readyState s client = OPEN then ws_send client message s else s)"

definition broadcast :: "jsval \<Rightarrow> server \<Rightarrow> server" where
  "broadcast data s =
     (let message = JSON_stringify data
      in fold (send_if_open message) (clients s) s)"

subsection \<open>The connection handler\<close>

text \<open>
  The handler of \<^verbatim>\<open>wss.on('connection')\<close>: the socket joins \<^verbatim>\<open>clients\<close>, then each slot
  of \<^verbatim>\<open>latestData\<close> that is truthy is replayed to it. The replayed object has the keys
  \<^verbatim>\<open>type\<close>, the payload key and \<^verbatim>\<open>timestamp\<close>, as the source writes them.
\<close>

definition replay :: "socket \<Rightarrow> string \<Rightarrow> string \<Rightarrow> jsval \<Rightarrow> server \<Rightarrow> server" where
  "replay ws type field slot s =
     (if ToBoolean slot then
        ws_send ws (JSON_stringify (JObj
          [(''type'', JStr type),
           (field, get_prop slot field),
           (''timestamp'', get_prop slot ''timestamp'')])) s
      else s)"

definition on_connection :: "socket \<Rightarrow> server \<Rightarrow> server" where
  "on_connection ws s =
     (let s0 = s\<lparr>clients := Set_add ws (clients s)\<rparr>;
          s1 = replay ws ''clf_data'' ''value'' (clf_data (latestData s0)) s0;
          s2 = replay ws ''mc_data'' ''params'' (mc_data (latestData s1)) s1;
          s3 = replay ws ''feedback_status'' ''sent'' (feedback_status (latestData s2)) s2;
          s4 = replay ws ''run_number'' ''value'' (run_number (latestData s3)) s3;
          s5 = replay ws ''feedback_number'' ''value'' (feedback_number (latestData s4)) s4
      in s5)"

definition on_close :: "socket \<Rightarrow> server \<Rightarrow> server" where
  "on_close ws s = s\<lparr>clients := Set_delete ws (clients s)\<rparr>"

definition on_error :: "socket \<Rightarrow> server \<Rightarrow> server" where
  "on_error ws s = s\<lparr>clients := Set_delete ws (clients s)\<rparr>"

subsection \<open>The POST handlers\<close>

text \<open>
  Each handler runs inside \<^verbatim>\<open>try { ... } catch (error) { res.status(500)... }\<close>. The clock
  reading \<^verbatim>\<open>new Date().toISOString()\<close> is the argument \<open>now\<close>. Destructuring
  \<^verbatim>\<open>req.body\<close> throws when the body is \<^verbatim>\<open>undefined\<close> or \<^verbatim>\<open>null\<close>; the template literal of
  the \<^verbatim>\<open>console.log\<close> line and the coercions throw when \<open>ToString\<close> does. The object
  literal is evaluated in full before it is assigned to the slot, so the option monad
  below computes the record and the assignment follows it.
\<close>

definition bad_request :: "string \<Rightarrow> response" where
  "bad_request msg = \<lparr>status = 400, body = JObj [(''error'', JStr msg)]\<rparr>"

definition internal_error :: response where
  "internal_error = \<lparr>status = 500, body = JObj [(''error'', JStr ''Internal server error'')]\<rparr>"

definition success :: "string \<Rightarrow> response" where
  "success msg = \<lparr>status = 200, body = JObj [(''success'', JBool True), (''message'', JStr msg)]\<rparr>"

definition elements :: "jsval \<Rightarrow> jsval list" where
  "elements v = (case v of JArr xs \<Rightarrow> xs | _ \<Rightarrow> [])"

definition post_clf_data :: "string \<Rightarrow> jsval \<Rightarrow> server \<Rightarrow> server \<times> response" where
  "post_clf_data now req_body s =
     (if req_body = JUndefined \<or> req_body = JNull then (s, internal_error)
      else
        let value = get_prop req_body ''value'';
            rep = get_prop req_body ''rep''
        in if value = JUndefined \<or> rep = JUndefined
           then (s, bad_request ''Missing required fields: value, rep'')
           else
             (case do {
                     _ \<leftarrow> ToString rep;
                     _ \<leftarrow> ToString value;
                     v \<leftarrow> parseFloat value;
                     r \<leftarrow> parseInt rep;
                     Some (JObj [(''value'', JNum v), (''rep'', JNum r), (''timestamp'', JStr now)])
                   } of
                None \<Rightarrow> (s, internal_error)
              | Some entry \<Rightarrow>
                  let s1 = s\<lparr>latestData := (latestData s)\<lparr>clf_data := entry\<rparr>\<rparr>;
                      s2 = broadcast (JObj
                             [(''type'', JStr ''clf_data''),
                              (''value'', get_prop (clf_data (latestData s1)) ''value''),
                              (''rep'', get_prop (clf_data (latestData s1)) ''rep''),
                              (''timestamp'', get_prop (clf_data (latestData s1)) ''timestamp'')]) s1
                  in (s2, success ''Classifier data received'')))"

definition post_mc_data :: "string \<Rightarrow> jsval \<Rightarrow> server \<Rightarrow> server \<times> response" where
  "post_mc_data now req_body s =
     (if req_body = JUndefined \<or> req_body = JNull then (s, internal_error)
      else
        let params = get_prop req_body ''params'';
            rep = get_prop req_body ''rep''
        in if \<not> ToBoolean params \<or> \<not> Array_isArray params \<or> rep = JUndefined
           then (s, bad_request ''Missing required fields: params (array), rep'')
           else
             (case do {
                     _ \<leftarrow> ToString rep;
                     _ \<leftarrow> Array_join (elements params) '', '';
                     ps \<leftarrow> sequence_opt (map parseFloat (elements params));
                     r \<leftarrow> parseInt rep;
                     Some (JObj [(''params'', JArr (map JNum ps)), (''rep'', JNum r),
                                 (''timestamp'', JStr now)])
                   } of
                None \<Rightarrow> (s, internal_error)
              | Some entry \<Rightarrow>
                  let s1 = s\<lparr>latestData := (latestData s)\<lparr>mc_data := entry\<rparr>\<rparr>;
                      s2 = broadcast (JObj
                             [(''type'', JStr ''mc_data''),
                              (''params'', get_prop (mc_data (latestData s1)) ''params''),
                              (''rep'', get_prop (mc_data (latestData s1)) ''rep''),
                              (''timestamp'', get_prop (mc_data (latestData s1)) ''timestamp'')]) s1
                  in (s2, success ''Motion correction data received'')))"

definition post_feedback_status :: "string \<Rightarrow> jsval \<Rightarrow> server \<Rightarrow> server \<times> response" where
  "post_feedback_status now req_body s =
     (if req_body = JUndefined \<or> req_body = JNull then (s, internal_error)
      else
        let sent = get_prop req_body ''sent'';
            rep = get_prop req_body ''rep''
        in if sent = JUndefined \<or> rep = JUndefined
           then (s, bad_request ''Missing required fields: sent (boolean), rep'')
           else
             (case do {
                     _ \<leftarrow> ToString rep;
                     _ \<leftarrow> ToString sent;
                     r \<leftarrow> parseInt rep;
                     Some (JObj [(''sent'', JBool (ToBoolean sent)), (''rep'', JNum r),
                                 (''timestamp'', JStr now)])
                   } of
                None \<Rightarrow> (s, internal_error)
              | Some entry \<Rightarrow>
                  let s1 = s\<lparr>latestData := (latestData s)\<lparr>feedback_status := entry\<rparr>\<rparr>;
                      s2 = broadcast (JObj
                             [(''type'', JStr ''feedback_status''),
                              (''sent'', get_prop (feedback_status (latestData s1)) ''sent''),
                              (''rep'', get_prop (feedback_status (latestData s1)) ''rep''),
                              (''timestamp'', get_prop (feedback_status (latestData s1)) ''timestamp'')]) s1
                  in (s2, success ''Neurofeedback status received'')))"

definition post_run_number :: "string \<Rightarrow> jsval \<Rightarrow> server \<Rightarrow> server \<times> response" where
  "post_run_number now req_body s =
     (if req_body = JUndefined \<or> req_body = JNull then (s, internal_error)
      else
        let value = get_prop req_body ''value'';
            rep = get_prop req_body ''rep''
        in if value = JUndefined \<or> rep = JUndefined
           then (s, bad_request ''Missing required fields: value, rep'')
           else
             (case do {
                     _ \<leftarrow> ToString rep;
                     _ \<leftarrow> ToString value;
                     v \<leftarrow> parseInt value;
                     r \<leftarrow> parseInt rep;
                     Some (JObj [(''value'', JNum v), (''rep'', JNum r), (''timestamp'', JStr now)])
                   } of
                None \<Rightarrow> (s, internal_error)
              | Some entry \<Rightarrow>
                  let s1 = s\<lparr>latestData := (latestData s)\<lparr>run_number := entry\<rparr>\<rparr>;
                      s2 = broadcast (JObj
                             [(''type'', JStr ''run_number''),
                              (''value'', get_prop (run_number (latestData s1)) ''value''),
                              (''rep'', get_prop (run_number (latestData s1)) ''rep''),
                              (''timestamp'', get_prop (run_number (latestData s1)) ''timestamp'')]) s1
                  in (s2, success ''Run number received'')))"

definition post_feedback_number :: "string \<Rightarrow> jsval \<Rightarrow> server \<Rightarrow> server \<times> response" where
  "post_feedback_number now req_body s =
     (if req_body = JUndefined \<or> req_body = JNull then (s, internal_error)
      else
        let value = get_prop req_body ''value'';
            rep = get_prop req_body ''rep''
        in if value = JUndefined \<or> rep = JUndefined
           then (s, bad_request ''Missing required fields: value, rep'')
           else
             (case do {
                     _ \<leftarrow> ToString rep;
                     _ \<leftarrow> ToString value;
                     v \<leftarrow> parseInt value;
                     r \<leftarrow> parseInt rep;
                     Some (JObj [(''value'', JNum v), (''rep'', JNum r), (''timestamp'', JStr now)])
                   } of
                None \<Rightarrow> (s, internal_error)
              | Some entry \<Rightarrow>
                  let s1 = s\<lparr>latestData := (latestData s)\<lparr>feedback_number := entry\<rparr>\<rparr>;
                      s2 = broadcast (JObj
                             [(''type'', JStr ''feedback_number''),
                              (''value'', get_prop (feedback_number (latestData s1)) ''value''),
                              (''rep'', get_prop (feedback_number (latestData s1)) ''rep''),
                              (''timestamp'', get_prop (feedback_number (latestData s1)) ''timestamp'')]) s1
                  in (s2, success ''Feedback number received'')))"

subsection \<open>The GET handlers\<close>

text \<open>
  \<^verbatim>\<open>/api/latest-data\<close> answers with \<^verbatim>\<open>latestData\<close> itself; \<^verbatim>\<open>/health\<close> rebuilds each
  truthy slot from its payload key, \<^verbatim>\<open>rep\<close> and \<^verbatim>\<open>timestamp\<close> and writes \<^verbatim>\<open>null\<close> for the
  others.
\<close>

definition latest_json :: "latest \<Rightarrow> jsval" where
  "latest_json ld =
     JObj [(''clf_data'', clf_data ld),
           (''mc_data'', mc_data ld),
           (''feedback_status'', feedback_status ld),
           (''run_number'', run_number ld),
           (''feedback_number'', feedback_number ld)]"

definition get_latest_data :: "server \<Rightarrow> server \<times> response" where
  "get_latest_data s = (s, \<lparr>status = 200, body = latest_json (latestData s)\<rparr>)"

definition health_slot :: "string \<Rightarrow> jsval \<Rightarrow> jsval" where
  "health_slot field slot =
     (if ToBoolean slot then
        JObj [(field, get_prop slot field),
              (''rep'', get_prop slot ''rep''),
              (''timestamp'', get_prop slot ''timestamp'')]
      else JNull)"

definition get_health :: "string \<Rightarrow> server \<Rightarrow> server \<times> response" where
  "get_health now s =
     (s, \<lparr>status = 200,
          body = JObj
            [(''status'', JStr ''ok''),
             (''timestamp'', JStr now),
             (''connectedClients'', JNum (num_of_int (int (length (clients s))))),
             (''latestData'', JObj
                [(''clf_data'', health_slot ''value'' (clf_data (latestData s))),
                 (''mc_data'', health_slot ''params'' (mc_data (latestData s))),
                 (''feedback_status'', health_slot ''sent'' (feedback_status (latestData s))),
                 (''run_number'', health_slot ''value'' (run_number (latestData s))),
                 (''feedback_number'', health_slot ''value'' (feedback_number (latestData s)))])]\<rparr>)"

section \<open>Channels and events\<close>

text \<open>
  The five routes of \<^verbatim>\<open>app.post\<close> are the five channels. An event is one callback of the
  event loop: a request, a new socket, the \<^verbatim>\<open>close\<close> or \<^verbatim>\<open>error\<close> of a socket, or a change
  of a socket's \<^verbatim>\<open>readyState\<close> by the transport. The \<^verbatim>\<open>ws\<close> library emits \<^verbatim>\<open>connection\<close>
  with the socket open.
\<close>

datatype channel = Clf_data | Mc_data | Feedback_status | Run_number | Feedback_number

fun channel_name :: "channel \<Rightarrow> string" where
  "channel_name Clf_data = ''clf_data''"
| "channel_name Mc_data = ''mc_data''"
| "channel_name Feedback_status = ''feedback_status''"
| "channel_name Run_number = ''run_number''"
| "channel_name Feedback_number = ''feedback_number''"

fun payload_field :: "channel \<Rightarrow> string" where
  "payload_field Clf_data = ''value''"
| "payload_field Mc_data = ''params''"
| "payload_field Feedback_status = ''sent''"
| "payload_field Run_number = ''value''"
| "payload_field Feedback_number = ''value''"

fun slot :: "channel \<Rightarrow> latest \<Rightarrow> jsval" where
  "slot Clf_data ld = clf_data ld"
| "slot Mc_data ld = mc_data ld"
| "slot Feedback_status ld = feedback_status ld"
| "slot Run_number ld = run_number ld"
| "slot Feedback_number ld = feedback_number ld"

fun set_slot :: "channel \<Rightarrow> jsval \<Rightarrow> latest \<Rightarrow> latest" where
  "set_slot Clf_data v ld = ld\<lparr>clf_data := v\<rparr>"
| "set_slot Mc_data v ld = ld\<lparr>mc_data := v\<rparr>"
| "set_slot Feedback_status v ld = ld\<lparr>feedback_status := v\<rparr>"
| "set_slot Run_number v ld = ld\<lparr>run_number := v\<rparr>"
| "set_slot Feedback_number v ld = ld\<lparr>feedback_number := v\<rparr>"

fun submit :: "channel \<Rightarrow> string \<Rightarrow> jsval \<Rightarrow> server \<Rightarrow> server \<times> response" where
  "submit Clf_data = post_clf_data"
| "submit Mc_data = post_mc_data"
| "submit Feedback_status = post_feedback_status"
| "submit Run_number = post_run_number"
| "submit Feedback_number = post_feedback_number"

datatype event =
    Post channel string jsval
  | GetHealth string
  | GetLatestData
  | Connection socket
  | Close socket
  | Error socket
  | Transport socket ready_state

fun step :: "event \<Rightarrow> server \<Rightarrow> server" where
  "step (Post c now req_body) s = fst (submit c now req_body s)"
| "step (GetHealth now) s = fst (get_health now s)"
| "step GetLatestData s = fst (get_latest_data s)"
| "step (Connection ws) s = on_connection ws (s\<lparr>readyState := (readyState s)(ws := OPEN)\<rparr>)"
| "step (Close ws) s = on_close ws s"
| "step (Error ws) s = on_error ws s"
| "step (Transport ws r) s = s\<lparr>readyState := (readyState s)(ws := r)\<rparr>"

definition run :: "event list \<Rightarrow> server \<Rightarrow> server" where
  "run es s = fold step es s"

section \<open>Vocabulary of the properties\<close>

text \<open>
  What a handler does with a request it accepts, written once for all five channels: the
  payload coercion of the channel, the slot assignment, and the broadcast that follows it.
\<close>

fun coerced_payload :: "channel \<Rightarrow> jsval \<Rightarrow> jsval option" where
  "coerced_payload Clf_data v = map_option JNum (parseFloat v)"
| "coerced_payload Mc_data v =
     map_option (\<lambda>ps. JArr (map JNum ps)) (sequence_opt (map parseFloat (elements v)))"
| "coerced_payload Feedback_status v = Some (JBool (ToBoolean v))"
| "coerced_payload Run_number v = map_option JNum (parseInt v)"
| "coerced_payload Feedback_number v = map_option JNum (parseInt v)"

fun missing_message :: "channel \<Rightarrow> string" where
  "missing_message Clf_data = ''Missing required fields: value, rep''"
| "missing_message Mc_data = ''Missing required fields: params (array), rep''"
| "missing_message Feedback_status = ''Missing required fields: sent (boolean), rep''"
| "missing_message Run_number = ''Missing required fields: value, rep''"
| "missing_message Feedback_number = ''Missing required fields: value, rep''"

fun received_message :: "channel \<Rightarrow> string" where
  "received_message Clf_data = ''Classifier data received''"
| "received_message Mc_data = ''Motion correction data received''"
| "received_message Feedback_status = ''Neurofeedback status received''"
| "received_message Run_number = ''Run number received''"
| "received_message Feedback_number = ''Feedback number received''"

definition record_of :: "channel \<Rightarrow> jsval \<Rightarrow> jsnum \<Rightarrow> string \<Rightarrow> jsval" where
  "record_of c x r now = JObj [(payload_field c, x), (''rep'', JNum r), (''timestamp'', JStr now)]"

definition event_of :: "channel \<Rightarrow> jsval \<Rightarrow> jsnum \<Rightarrow> string \<Rightarrow> jsval" where
  "event_of c x r now =
     JObj [(''type'', JStr (channel_name c)), (payload_field c, x),
           (''rep'', JNum r), (''timestamp'', JStr now)]"

definition store :: "channel \<Rightarrow> jsval \<Rightarrow> server \<Rightarrow> server" where
  "store c entry s = s\<lparr>latestData := set_slot c entry (latestData s)\<rparr>"

text \<open>The guard of each handler that answers 400, as the source writes it.\<close>

fun missing_required :: "channel \<Rightarrow> jsval \<Rightarrow> bool" where
  "missing_required Mc_data b =
     (\<not> ToBoolean (get_prop b ''params'') \<or> \<not> Array_isArray (get_prop b ''params'')
      \<or> get_prop b ''rep'' = JUndefined)"
| "missing_required c b =
     (get_prop b (payload_field c) = JUndefined \<or> get_prop b ''rep'' = JUndefined)"

text \<open>
  The second way out of a handler: the \<^verbatim>\<open>console.log\<close> line converts \<^verbatim>\<open>rep\<close> and the payload
  field to strings (for \<^verbatim>\<open>mc_data\<close> it joins \<^verbatim>\<open>params\<close>), and a conversion that throws ends
  the request in the \<^verbatim>\<open>catch\<close> branch.
\<close>

fun unprintable :: "channel \<Rightarrow> jsval \<Rightarrow> bool" where
  "unprintable Mc_data b =
     (ToString (get_prop b ''rep'') = None \<or>
      Array_join (elements (get_prop b ''params'')) '', '' = None)"
| "unprintable c b =
     (ToString (get_prop b ''rep'') = None \<or> ToString (get_prop b (payload_field c)) = None)"

text \<open>
  The shape of a record of a channel: exactly the payload key, \<^verbatim>\<open>rep\<close> and \<^verbatim>\<open>timestamp\<close>,
  holding a number (an array of numbers for \<^verbatim>\<open>mc_data\<close>, a boolean for
  \<^verbatim>\<open>feedback_status\<close>), a number and a string. \<^verbatim>\<open>NaN\<close> is a number.
\<close>

fun is_number :: "jsval \<Rightarrow> bool" where
  "is_number (JNum _) = True"
| "is_number _ = False"

fun is_boolean :: "jsval \<Rightarrow> bool" where
  "is_boolean (JBool _) = True"
| "is_boolean _ = False"

fun is_string :: "jsval \<Rightarrow> bool" where
  "is_string (JStr _) = True"
| "is_string _ = False"

fun payload_typed :: "channel \<Rightarrow> jsval \<Rightarrow> bool" where
  "payload_typed Mc_data v = (Array_isArray v \<and> list_all is_number (elements v))"
| "payload_typed Feedback_status v = is_boolean v"
| "payload_typed c v = is_number v"

definition is_record :: "channel \<Rightarrow> jsval \<Rightarrow> bool" where
  "is_record c v =
     (case v of
        JObj ps \<Rightarrow>
          map fst ps = [payload_field c, ''rep'', ''timestamp''] \<and>
          payload_typed c (snd (ps ! 0)) \<and> is_number (snd (ps ! 1)) \<and> is_string (snd (ps ! 2))
      | _ \<Rightarrow> False)"

definition well_shaped :: "channel \<Rightarrow> jsval \<Rightarrow> bool" where
  "well_shaped c v = (v = JNull \<or> is_record c v)"

text \<open>A payload of the declared types: what the README documents for each route.\<close>

definition valid_payload :: "channel \<Rightarrow> jsval \<Rightarrow> bool" where
  "valid_payload c b =
     (payload_typed c (get_prop b (payload_field c)) \<and> is_number (get_prop b ''rep''))"

definition all_channels :: "channel list" where
  "all_channels = [Clf_data, Mc_data, Feedback_status, Run_number, Feedback_number]"

text \<open>
  The outcome of an accepted request: the slot holds the new record, and the broadcast of
  the event built from it runs on the state that already holds the record.
\<close>

definition accepted :: "channel \<Rightarrow> string \<Rightarrow> server \<Rightarrow> jsval \<Rightarrow> jsnum \<Rightarrow> server \<times> response" where
  "accepted c now s x r =
     (broadcast (event_of c x r now) (store c (record_of c x r now) s),
      success (received_message c))"

text \<open>
  A number as \<^verbatim>\<open>JSON.parse\<close> delivers it has one notation: \<open>Dec m e\<close> is canonical when \<open>m\<close>
  has no trailing zero. An integer below \<open>10 ^ 21\<close> is written without an exponent, so
  \<^verbatim>\<open>parseInt\<close> reads all of it. A payload of the declared types has, as its payload field,
  a canonical number, an array of canonical numbers, a boolean or such an integer,
  whichever the route takes, and such an integer as \<^verbatim>\<open>rep\<close>.
\<close>

fun canonical :: "jsnum \<Rightarrow> bool" where
  "canonical (Dec m e) = (normalise m e = (m, e))"
| "canonical _ = True"

fun plain_integer :: "jsnum \<Rightarrow> bool" where
  "plain_integer (Dec m e) =
     (normalise m e = (m, e) \<and> 0 \<le> e \<and> int (length (digits_of (nat \<bar>m\<bar>))) + e \<le> 21)"
| "plain_integer _ = False"

fun is_canonical_number :: "jsval \<Rightarrow> bool" where
  "is_canonical_number (JNum x) = canonical x"
| "is_canonical_number _ = False"

fun is_plain_integer :: "jsval \<Rightarrow> bool" where
  "is_plain_integer (JNum x) = plain_integer x"
| "is_plain_integer _ = False"

fun declared_value :: "channel \<Rightarrow> jsval \<Rightarrow> bool" where
  "declared_value Clf_data v = is_canonical_number v"
| "declared_value Mc_data v = (Array_isArray v \<and> list_all is_canonical_number (elements v))"
| "declared_value Feedback_status v = is_boolean v"
| "declared_value Run_number v = is_plain_integer v"
| "declared_value Feedback_number v = is_plain_integer v"

definition declared_payload :: "channel \<Rightarrow> jsval \<Rightarrow> bool" where
  "declared_payload c b =
     (declared_value c (get_prop b (payload_field c)) \<and> is_plain_integer (get_prop b ''rep''))"

text \<open>The message that the connection handler sends for a slot that holds \<open>v\<close>.\<close>

definition replay_message :: "channel \<Rightarrow> jsval \<Rightarrow> string" where
  "replay_message c v =
     JSON_stringify (JObj [(''type'', JStr (channel_name c)),
                           (payload_field c, get_prop v (payload_field c)),
                           (''timestamp'', get_prop v ''timestamp'')])"

subsection \<open>Example inputs\<close>

definition example_now :: string where
  "example_now = ''2025-08-05T21:27:29.482Z''"

definition one_observer :: server where
  "one_observer = run [Connection 1] init_server"

definition five_params :: jsval where
  "five_params =
     JObj [(''params'', JArr [JNum (Dec 1 (-3)), JNum (Dec (-2) (-3)), JNum (Dec 3 (-3)),
                              JNum (Dec 1 (-4)), JNum (Dec (-2) (-4))]),
           (''rep'', JNum (Dec 42 0))]"

definition clf_example :: jsval where
  "clf_example = JObj [(''value'', JNum (Dec 75 (-2))), (''rep'', JNum (Dec 42 0))]"

definition closing_observer :: server where
  "closing_observer = run [Connection 1, Connection 2, Transport 2 CLOSING] init_server"

definition clf_zero :: jsval where
  "clf_zero = JObj [(''value'', JNum (Dec 0 0)), (''rep'', JNum (Dec 0 0))]"

definition feedback_false :: jsval where
  "feedback_false = JObj [(''sent'', JBool False), (''rep'', JNum (Dec 0 0))]"



definition falsy_params :: jsval where
  "falsy_params = JObj [(''params'', JNum (Dec 0 0)), (''rep'', JNum (Dec 1 0))]"

definition six_params :: "jsval" where
  "six_params = JArr [JNum (Dec 1 (-3)), JNum (Dec (-2) (-3)), JNum (Dec 3 (-3)),
                      JNum (Dec 1 (-4)), JNum (Dec (-2) (-4)), JNum (Dec 3 (-4))]"

definition mc_rep_zero :: jsval where
  "mc_rep_zero = JObj [(''params'', six_params), (''rep'', JNum (Dec 0 0))]"

section \<open>Facts about broadcast, the handlers and the event loop\<close>

subsection \<open>What a broadcast changes\<close>

lemma send_if_open_frame [simp]:
  "latestData (send_if_open m a s) = latestData s"
  "clients (send_if_open m a s) = clients s"
  "readyState (send_if_open m a s) = readyState s"
  by (simp_all add: send_if_open_def ws_send_def)

lemma send_if_open_outbox:
  "outbox (send_if_open m a s) c =
     outbox s c @ (if a = c \<and> readyState s c = OPEN then [m] else [])"
  by (simp add: send_if_open_def ws_send_def)

lemma fold_send_frame [simp]:
  "latestData (fold (send_if_open m) cs s) = latestData s"
  "clients (fold (send_if_open m) cs s) = clients s"
  "readyState (fold (send_if_open m) cs s) = readyState s"
  by (induction cs arbitrary: s) simp_all

lemma fold_send_outbox:
  "outbox (fold (send_if_open m) cs s) c =
     outbox s c @ (if readyState s c = OPEN then replicate (count_list cs c) m else [])"
proof (induction cs arbitrary: s)
  case Nil
  then show ?case by simp
next
  case (Cons a cs)
  have "outbox (fold (send_if_open m) (a # cs) s) c =
        outbox (send_if_open m a s) c @
          (if readyState s c = OPEN then replicate (count_list cs c) m else [])"
    by (simp add: Cons.IH)
  then show ?case
    by (simp add: send_if_open_outbox)
qed

lemma broadcast_frame [simp]:
  "latestData (broadcast d s) = latestData s"
  "clients (broadcast d s) = clients s"
  "readyState (broadcast d s) = readyState s"
  by (simp_all add: broadcast_def)

lemma count_list_distinct:
  "distinct cs \<Longrightarrow> count_list cs c = (if c \<in> set cs then 1 else 0)"
  by (induction cs) auto

lemma broadcast_outbox:
  assumes "distinct (clients s)"
  shows "outbox (broadcast d s) w =
           (if w \<in> set (clients s) \<and> readyState s w = OPEN
            then outbox s w @ [JSON_stringify d] else outbox s w)"
  using assms by (simp add: broadcast_def fold_send_outbox count_list_distinct)

subsection \<open>The three outcomes of a submission\<close>

text \<open>
  Every handler ends in one of three ways: the \<^verbatim>\<open>catch\<close> branch, the 400 of its guard, or
  the assignment followed by the broadcast. The first two leave the state as it was.
\<close>

lemma submit_cases:
  "submit c now b s = (s, internal_error) \<or>
   submit c now b s = (s, bad_request (missing_message c)) \<or>
   (\<exists>x r. coerced_payload c (get_prop b (payload_field c)) = Some x \<and>
          parseInt (get_prop b ''rep'') = Some r \<and>
          submit c now b s = accepted c now s x r)"
proof (cases c)
  case Clf_data
  then show ?thesis
    by (auto simp: post_clf_data_def accepted_def event_of_def record_of_def store_def Let_def
             split: option.splits Option.bind_splits)
next
  case Mc_data
  then show ?thesis
    by (auto simp: post_mc_data_def accepted_def event_of_def record_of_def store_def Let_def
             split: option.splits Option.bind_splits)
next
  case Feedback_status
  then show ?thesis
    by (auto simp: post_feedback_status_def accepted_def event_of_def record_of_def store_def Let_def
             split: option.splits Option.bind_splits)
next
  case Run_number
  then show ?thesis
    by (auto simp: post_run_number_def accepted_def event_of_def record_of_def store_def Let_def
             split: option.splits Option.bind_splits)
next
  case Feedback_number
  then show ?thesis
    by (auto simp: post_feedback_number_def accepted_def event_of_def record_of_def store_def Let_def
             split: option.splits Option.bind_splits)
qed

lemma submit_400_iff:
  "(status (snd (submit c now b s)) = 400) =
     (b \<noteq> JUndefined \<and> b \<noteq> JNull \<and> missing_required c b)"
proof (cases c)
  case Clf_data
  then show ?thesis
    by (auto simp: post_clf_data_def Let_def bad_request_def internal_error_def success_def
             split: option.splits)
next
  case Mc_data
  then show ?thesis
    by (auto simp: post_mc_data_def Let_def bad_request_def internal_error_def success_def
             split: option.splits)
next
  case Feedback_status
  then show ?thesis
    by (auto simp: post_feedback_status_def Let_def bad_request_def internal_error_def success_def
             split: option.splits)
next
  case Run_number
  then show ?thesis
    by (auto simp: post_run_number_def Let_def bad_request_def internal_error_def success_def
             split: option.splits)
next
  case Feedback_number
  then show ?thesis
    by (auto simp: post_feedback_number_def Let_def bad_request_def internal_error_def success_def
             split: option.splits)
qed

subsection \<open>Invariants of the event loop\<close>

lemma slot_set_slot: "slot c' (set_slot c v ld) = (if c' = c then v else slot c' ld)"
  by (cases c; cases c') simp_all

lemma accepted_state:
  "latestData (fst (accepted c now s x r)) = set_slot c (record_of c x r now) (latestData s)"
  "clients (fst (accepted c now s x r)) = clients s"
  "readyState (fst (accepted c now s x r)) = readyState s"
  "snd (accepted c now s x r) = success (received_message c)"
  by (simp_all add: accepted_def store_def)

lemma status_simps [simp]:
  "status internal_error = 500"
  "status (bad_request m) = 400"
  "status (success m) = 200"
  by (simp_all add: internal_error_def bad_request_def success_def)

lemma list_all_is_number_map_JNum: "list_all is_number (map JNum ps)"
  by (induction ps) simp_all

lemma coerced_payload_typed:
  "coerced_payload c v = Some x \<Longrightarrow> payload_typed c x"
  by (cases c) (auto simp: elements_def list_all_is_number_map_JNum)

lemma record_of_is_record:
  "payload_typed c x \<Longrightarrow> is_record c (record_of c x r now)"
  by (simp add: is_record_def record_of_def)

lemma is_record_not_null: "is_record c v \<Longrightarrow> v \<noteq> JNull"
  by (auto simp: is_record_def)

lemma submit_slot:
  "slot c' (latestData (fst (submit c now b s))) = slot c' (latestData s) \<or>
   (c' = c \<and> status (snd (submit c now b s)) = 200 \<and>
    is_record c' (slot c' (latestData (fst (submit c now b s)))))"
  using submit_cases [of c now b s]
  by (cases "c' = c")
     (auto simp: accepted_state slot_set_slot coerced_payload_typed record_of_is_record)

lemma replay_frame [simp]:
  "latestData (replay ws ty f v s) = latestData s"
  "clients (replay ws ty f v s) = clients s"
  "readyState (replay ws ty f v s) = readyState s"
  by (simp_all add: replay_def ws_send_def)

lemma on_connection_frame [simp]:
  "latestData (on_connection ws s) = latestData s"
  "clients (on_connection ws s) = Set_add ws (clients s)"
  "readyState (on_connection ws s) = readyState s"
  by (simp_all add: on_connection_def Let_def)

lemma step_slot:
  "slot c (latestData (step e s)) = slot c (latestData s) \<or>
   is_record c (slot c (latestData (step e s)))"
proof (cases e)
  case (Post c' now b)
  then show ?thesis using submit_slot [of c c' now b s] by auto
qed (simp_all add: get_health_def get_latest_data_def on_close_def on_error_def)

lemma run_Cons [simp]: "run (e # es) s = run es (step e s)"
  by (simp add: run_def)

lemma run_Nil [simp]: "run [] s = s"
  by (simp add: run_def)

lemma run_append: "run (es @ es') s = run es' (run es s)"
  by (simp add: run_def)

lemma run_is_record:
  "is_record c (slot c (latestData s)) \<Longrightarrow> is_record c (slot c (latestData (run es s)))"
proof (induction es arbitrary: s)
  case Nil
  then show ?case by simp
next
  case (Cons e es)
  from step_slot [of c e s] Cons.prems
  have "is_record c (slot c (latestData (step e s)))" by auto
  then show ?case by (simp add: Cons.IH)
qed

lemma run_not_null:
  "slot c (latestData s) \<noteq> JNull \<Longrightarrow> slot c (latestData (run es s)) \<noteq> JNull"
proof (induction es arbitrary: s)
  case Nil
  then show ?case by simp
next
  case (Cons e es)
  from step_slot [of c e s] Cons.prems
  have "slot c (latestData (step e s)) \<noteq> JNull" by (auto dest: is_record_not_null)
  then show ?case by (simp add: Cons.IH)
qed

lemma run_well_shaped:
  "well_shaped c (slot c (latestData s)) \<Longrightarrow> well_shaped c (slot c (latestData (run es s)))"
proof (induction es arbitrary: s)
  case Nil
  then show ?case by simp
next
  case (Cons e es)
  from step_slot [of c e s] Cons.prems
  have "well_shaped c (slot c (latestData (step e s)))" by (auto simp: well_shaped_def)
  then show ?case by (simp add: Cons.IH)
qed

lemma init_slot: "slot c (latestData init_server) = JNull"
  by (cases c) (simp_all add: init_server_def init_latest_def)

lemma reachable_well_shaped: "well_shaped c (slot c (latestData (run es init_server)))"
  by (rule run_well_shaped) (simp add: init_slot well_shaped_def)

lemma distinct_Set_add: "distinct xs \<Longrightarrow> distinct (Set_add x xs)"
  by (simp add: Set_add_def)

lemma distinct_Set_delete: "distinct xs \<Longrightarrow> distinct (Set_delete x xs)"
  by (simp add: Set_delete_def)

lemma submit_clients: "clients (fst (submit c now b s)) = clients s"
  using submit_cases [of c now b s] by (auto simp: accepted_state)

lemma step_clients:
  "clients (step e s) =
     (case e of Connection ws \<Rightarrow> Set_add ws (clients s)
      | Close ws \<Rightarrow> Set_delete ws (clients s)
      | Error ws \<Rightarrow> Set_delete ws (clients s)
      | _ \<Rightarrow> clients s)"
  by (cases e) (simp_all add: submit_clients get_health_def get_latest_data_def on_close_def on_error_def)

lemma step_distinct: "distinct (clients s) \<Longrightarrow> distinct (clients (step e s))"
  unfolding step_clients
  by (cases e) (simp_all add: distinct_Set_add distinct_Set_delete)

lemma run_distinct: "distinct (clients s) \<Longrightarrow> distinct (clients (run es s))"
  by (induction es arbitrary: s) (simp_all add: step_distinct)

lemma reachable_distinct: "distinct (clients (run es init_server))"
  by (rule run_distinct) (simp add: init_server_def)

lemma health_slot_record:
  "well_shaped c v \<Longrightarrow> health_slot (payload_field c) v = v"
proof -
  assume "well_shaped c v"
  then consider "v = JNull" | "is_record c v" by (auto simp: well_shaped_def)
  then show ?thesis
  proof cases
    case 1
    then show ?thesis by (simp add: health_slot_def)
  next
    case 2
    then obtain ps where v: "v = JObj ps"
      and keys: "map fst ps = [payload_field c, ''rep'', ''timestamp'']"
      by (auto simp: is_record_def split: jsval.splits)
    from keys obtain x r t where "ps = [(payload_field c, x), (''rep'', r), (''timestamp'', t)]"
      by (auto simp: map_eq_Cons_conv)
    with v show ?thesis
      by (cases c) (simp_all add: health_slot_def)
  qed
qed

lemma isArray_truthy: "Array_isArray v \<Longrightarrow> ToBoolean v"
  by (cases v) simp_all

lemma submit_400:
  assumes "status (snd (submit c now b s)) = 400"
  shows "submit c now b s = (s, bad_request (missing_message c))"
  using submit_cases [of c now b s] assms by (auto simp: accepted_state)

lemma submit_not_200:
  assumes "status (snd (submit c now b s)) \<noteq> 200"
  shows "fst (submit c now b s) = s"
  using submit_cases [of c now b s] assms by (auto simp: accepted_state)

lemma submit_200:
  assumes "status (snd (submit c now b s)) = 200"
  shows "\<exists>x r. coerced_payload c (get_prop b (payload_field c)) = Some x \<and>
          parseInt (get_prop b ''rep'') = Some r \<and>
          submit c now b s = accepted c now s x r"
  using submit_cases [of c now b s] assms by auto

lemma absent_missing_required:
  "get_prop b (payload_field c) = JUndefined \<or> get_prop b ''rep'' = JUndefined
   \<Longrightarrow> missing_required c b"
  by (cases c) auto

lemma join_numbers: "list_all is_number xs \<Longrightarrow> \<exists>ys. sequence_opt (map join_element xs) = Some ys"
proof (induction xs)
  case Nil
  then show ?case by simp
next
  case (Cons x xs)
  then show ?case by (cases x) auto
qed

lemma parseFloat_numbers: "list_all is_number xs \<Longrightarrow> \<exists>ys. sequence_opt (map parseFloat xs) = Some ys"
proof (induction xs)
  case Nil
  then show ?case by simp
next
  case (Cons x xs)
  then show ?case by (cases x) (auto simp: parseFloat_def)
qed

lemma is_number_cases: "is_number v \<Longrightarrow> \<exists>x. v = JNum x"
  by (cases v) simp_all

lemma is_boolean_cases: "is_boolean v \<Longrightarrow> \<exists>x. v = JBool x"
  by (cases v) simp_all

lemma valid_payload_body: "valid_payload c b \<Longrightarrow> \<exists>ps. b = JObj ps"
  by (cases b) (auto simp: valid_payload_def)

lemma valid_payload_accepted:
  assumes "valid_payload c b"
  shows "status (snd (submit c now b s)) = 200"
proof -
  from assms obtain ps where b: "b = JObj ps" using valid_payload_body by blast
  from assms obtain r where r: "get_prop b ''rep'' = JNum r"
    by (auto simp: valid_payload_def dest: is_number_cases)
  show ?thesis
  proof (cases c)
    case Clf_data
    with assms obtain x where "get_prop b ''value'' = JNum x"
      by (auto simp: valid_payload_def dest: is_number_cases)
    with Clf_data b r show ?thesis
      by (simp add: post_clf_data_def parseFloat_def parseInt_def Let_def)
  next
    case Mc_data
    with assms obtain xs where xs: "get_prop b ''params'' = JArr xs" "list_all is_number xs"
      by (cases "get_prop b ''params''") (auto simp: valid_payload_def elements_def)
    from join_numbers [OF xs(2)] parseFloat_numbers [OF xs(2)]
    obtain ys zs where "sequence_opt (map join_element xs) = Some ys"
      "sequence_opt (map parseFloat xs) = Some zs" by blast
    with Mc_data b r xs show ?thesis
      by (simp add: post_mc_data_def parseInt_def Array_join_def elements_def Let_def)
  next
    case Feedback_status
    with assms obtain x where "get_prop b ''sent'' = JBool x"
      by (auto simp: valid_payload_def dest: is_boolean_cases)
    with Feedback_status b r show ?thesis
      by (simp add: post_feedback_status_def parseInt_def Let_def)
  next
    case Run_number
    with assms obtain x where "get_prop b ''value'' = JNum x"
      by (auto simp: valid_payload_def dest: is_number_cases)
    with Run_number b r show ?thesis
      by (simp add: post_run_number_def parseInt_def Let_def)
  next
    case Feedback_number
    with assms obtain x where "get_prop b ''value'' = JNum x"
      by (auto simp: valid_payload_def dest: is_number_cases)
    with Feedback_number b r show ?thesis
      by (simp add: post_feedback_number_def parseInt_def Let_def)
  qed
qed

lemma accepted_outbox:
  assumes "distinct (clients s)"
  shows "outbox (fst (accepted c now s x r)) w =
           (if w \<in> set (clients s) \<and> readyState s w = OPEN
            then outbox s w @ [JSON_stringify (event_of c x r now)] else outbox s w)"
  using assms by (simp add: accepted_def broadcast_outbox store_def)

lemma latest_json_channels:
  "latest_json ld = JObj (map (\<lambda>c. (channel_name c, slot c ld)) all_channels)"
  by (simp add: latest_json_def all_channels_def)

lemma health_latest_json:
  assumes "\<And>c. well_shaped c (slot c (latestData s))"
  shows "JObj
          [(''clf_data'', health_slot ''value'' (clf_data (latestData s))),
           (''mc_data'', health_slot ''params'' (mc_data (latestData s))),
           (''feedback_status'', health_slot ''sent'' (feedback_status (latestData s))),
           (''run_number'', health_slot ''value'' (run_number (latestData s))),
           (''feedback_number'', health_slot ''value'' (feedback_number (latestData s)))]
         = latest_json (latestData s)"
  using health_slot_record [OF assms [of Clf_data]] health_slot_record [OF assms [of Mc_data]]
    health_slot_record [OF assms [of Feedback_status]] health_slot_record [OF assms [of Run_number]]
    health_slot_record [OF assms [of Feedback_number]]
  by (simp add: latest_json_def)

subsection \<open>Numbers survive their decimal notation\<close>

text \<open>
  \<^verbatim>\<open>parseFloat\<close> reads back what \<open>Number_toString\<close> writes, in each of its four notations,
  and \<^verbatim>\<open>parseInt\<close> does so for an integer written without an exponent.
\<close>

lemma is_digit_digit_char: "d < 10 \<Longrightarrow> is_digit (digit_char d)"
proof -
  assume "d < 10"
  then have "d \<in> {0,1,2,3,4,5,6,7,8,9}" by auto
  then show ?thesis by (auto simp: is_digit_def digit_char_def)
qed

lemma digit_val_digit_char: "d < 10 \<Longrightarrow> digit_val (digit_char d) = d"
proof -
  assume "d < 10"
  then have "d \<in> {0,1,2,3,4,5,6,7,8,9}" by auto
  then show ?thesis by (auto simp: digit_val_def is_digit_def digit_char_def)
qed

lemma digits_of_digits: "list_all is_digit (digits_of n)"
  by (induction n rule: digits_of.induct)
     (subst digits_of.simps, simp add: is_digit_digit_char)

lemma digits_of_not_Nil: "digits_of n \<noteq> []"
  by (subst digits_of.simps) simp

lemma nat_of_digits_snoc:
  "nat_of_digits r (xs @ [c]) = r * nat_of_digits r xs + digit_val c"
  by (simp add: nat_of_digits_def)

lemma nat_of_digits_digits_of: "nat_of_digits 10 (digits_of n) = n"
proof (induction n rule: digits_of.induct)
  case (1 n)
  show ?case
  proof (cases "n < 10")
    case True
    then show ?thesis
      by (subst digits_of.simps) (simp add: nat_of_digits_def digit_val_digit_char)
  next
    case False
    with 1 show ?thesis
      by (subst digits_of.simps) (simp add: nat_of_digits_snoc digit_val_digit_char)
  qed
qed

lemma digit_val_zero: "digit_val CHR ''0'' = 0"
  by (simp add: digit_val_def is_digit_def)

lemma nat_of_digits_append_zeros:
  "nat_of_digits 10 (ds @ replicate j CHR ''0'') = nat_of_digits 10 ds * 10 ^ j"
proof (induction j)
  case 0
  then show ?case by simp
next
  case (Suc j)
  have "ds @ replicate (Suc j) CHR ''0'' = (ds @ replicate j CHR ''0'') @ [CHR ''0'']"
    by (simp add: replicate_append_same)
  then show ?case
    by (simp only: nat_of_digits_snoc Suc.IH digit_val_zero) simp
qed

lemma nat_of_digits_Cons_zero:
  "nat_of_digits 10 (CHR ''0'' # ds) = nat_of_digits 10 ds"
  by (simp add: nat_of_digits_def digit_val_zero)

lemma nat_of_digits_zeros_append:
  "nat_of_digits 10 (replicate j CHR ''0'' @ ds) = nat_of_digits 10 ds"
  by (induction j) (simp_all add: nat_of_digits_Cons_zero)

lemma normalise_times_ten:
  "normalise (m * 10 ^ j) (e - int j) = normalise m e"
proof (induction j arbitrary: e)
  case 0
  then show ?case by simp
next
  case (Suc j)
  show ?case
  proof (cases "m = 0")
    case True
    then show ?thesis by (simp add: normalise.simps)
  next
    case False
    have "normalise (m * 10 ^ Suc j) (e - int (Suc j)) = normalise (m * 10 ^ j) (e - int (Suc j) + 1)"
      using False by (subst normalise.simps) simp
    also have "e - int (Suc j) + 1 = e - int j" by simp
    finally show ?thesis by (simp add: Suc.IH)
  qed
qed

lemma normalise_idem:
  "normalise m e = (m', e') \<Longrightarrow> normalise m' e' = (m', e')"
proof (induction m e rule: normalise.induct)
  case (1 m e)
  show ?case
  proof (cases "m = 0")
    case True
    with 1(2) show ?thesis by (simp add: normalise.simps)
  next
    case False
    show ?thesis
    proof (cases "m mod 10 = 0")
      case True
      with False 1(2) have "normalise (m div 10) (e + 1) = (m', e')"
        by (subst (asm) normalise.simps) simp
      with 1(1) False True show ?thesis by simp
    next
      case n: False
      with False 1(2) have "m' = m" "e' = e"
        by (subst (asm) normalise.simps, simp)+
      with False n show ?thesis by (subst normalise.simps) simp
    qed
  qed
qed

lemma normalise_zero: "normalise m e = (m', e') \<Longrightarrow> (m' = 0) = (m = 0)"
proof (induction m e rule: normalise.induct)
  case (1 m e)
  show ?case
  proof (cases "m = 0")
    case True
    with 1(2) show ?thesis by (simp add: normalise.simps)
  next
    case False
    show ?thesis
    proof (cases "m mod 10 = 0")
      case True
      with False 1(2) have "normalise (m div 10) (e + 1) = (m', e')"
        by (subst (asm) normalise.simps) simp
      with 1(1) False True have "(m' = 0) = (m div 10 = 0)" by simp
      moreover from True False have "m div 10 \<noteq> 0" by auto
      ultimately show ?thesis using False by simp
    next
      case n: False
      with False 1(2) have "m' = m"
        by (subst (asm) normalise.simps) simp
      then show ?thesis by simp
    qed
  qed
qed

lemma normalise_normalise:
  "normalise m e = (m', e') \<Longrightarrow> normalise m e = normalise m' e'"
  by (simp add: normalise_idem)

lemma not_digit_chars [simp]:
  "\<not> is_digit CHR ''.''" "\<not> is_digit CHR ''e''" "\<not> is_digit CHR ''-''" "\<not> is_digit CHR ''+''"
  "\<not> is_digit CHR ''I''" "\<not> is_digit CHR ''x''" "\<not> is_digit CHR ''X''"
  by (simp_all add: is_digit_def)

lemma digit_not_space: "is_digit c \<Longrightarrow> \<not> is_space c"
  by (auto simp: is_digit_def is_space_def)

lemma minus_not_space [simp]: "\<not> is_space CHR ''-''"
  by (simp add: is_space_def)

lemma skip_space_Cons:
  assumes "\<not> is_space c"
    and "c \<notin> set [CHR 0xC2, CHR 0xE1, CHR 0xE2, CHR 0xE3, CHR 0xEF]"
  shows "skip_space (c # r) = c # r"
  using assms by (subst skip_space.simps) (auto simp: wide_spaces_def)

lemma skip_space_digit: "is_digit c \<Longrightarrow> skip_space (c # r) = c # r"
  by (rule skip_space_Cons) (auto simp: is_digit_def is_space_def)

lemma skip_space_minus: "skip_space (CHR ''-'' # r) = CHR ''-'' # r"
  by (rule skip_space_Cons) simp_all

lemma takeWhile_digits:
  assumes "list_all is_digit ds" and "rest = [] \<or> \<not> is_digit (hd rest)"
  shows "takeWhile is_digit (ds @ rest) = ds" and "dropWhile is_digit (ds @ rest) = rest"
proof -
  from assms(2) have t: "takeWhile is_digit rest = []" and d: "dropWhile is_digit rest = rest"
    by (cases rest; auto)+
  from assms(1) have a: "\<And>x. x \<in> set ds \<Longrightarrow> is_digit x" by (simp add: list_all_iff)
  show "takeWhile is_digit (ds @ rest) = ds" using a t by (simp add: takeWhile_append2)
  show "dropWhile is_digit (ds @ rest) = rest" using a d by (simp add: dropWhile_append2)
qed

lemma split_sign_digits:
  assumes "list_all is_digit ds" and "ds \<noteq> []"
  shows "split_sign (ds @ rest) = (False, ds @ rest)"
proof -
  from assms obtain d ds' where ds: "ds = d # ds'" and d: "is_digit d"
    by (cases ds) auto
  from d have "d \<noteq> CHR ''-''" "d \<noteq> CHR ''+''" by auto
  with ds show ?thesis by (simp add: split_sign_def)
qed

lemma split_sign_minus: "split_sign (CHR ''-'' # r) = (True, r)"
  by (simp add: split_sign_def)

lemma split_sign_plus: "split_sign (CHR ''+'' # r) = (False, r)"
  by (simp add: split_sign_def)

lemma signed_abs: "signed (m < 0) (nat \<bar>m\<bar>) = m"
  by (simp add: signed_def)

lemma takeWhile_digits_of: "takeWhile is_digit (digits_of n) = digits_of n"
  using takeWhile_digits(1) [OF digits_of_digits, of "[]"] by simp

lemma parse_exponent_rendered:
  "parse_exponent (''e'' @ (if 0 \<le> ex then ''+'' else ''-'') @ digits_of (nat \<bar>ex\<bar>)) = ex"
  by (cases "0 \<le> ex")
     (simp_all add: parse_exponent_def split_sign_minus split_sign_plus takeWhile_digits_of
        digits_of_not_Nil nat_of_digits_digits_of signed_def Let_def)

lemma parse_exponent_Nil: "parse_exponent [] = 0"
  by (simp add: parse_exponent_def)

lemma sign_prefix_scan:
  assumes "list_all is_digit ip" and "ip \<noteq> []"
  shows "split_sign (skip_space ((if neg then ''-'' else []) @ ip @ rest)) = (neg, ip @ rest)"
proof -
  from assms obtain d ip' where ip: "ip = d # ip'" and d: "is_digit d" by (cases ip) auto
  show ?thesis
  proof (cases neg)
    case True
    then show ?thesis by (simp add: split_sign_minus skip_space_minus)
  next
    case False
    with ip d have "skip_space ((if neg then ''-'' else []) @ ip @ rest) = ip @ rest"
      by (simp add: skip_space_digit)
    with False show ?thesis by (simp add: split_sign_digits [OF assms])
  qed
qed

lemma not_Infinity:
  assumes "list_all is_digit ip" and "ip \<noteq> []"
  shows "take 8 (ip @ rest) \<noteq> ''Infinity''"
proof -
  from assms obtain d ip' where ip: "ip = d # ip'" and d: "is_digit d" by (cases ip) auto
  from d have "d \<noteq> CHR ''I''" by auto
  with ip show ?thesis by simp
qed

lemma parseFloat_string_shape:
  assumes ip: "list_all is_digit ip" "ip \<noteq> []" and fp: "list_all is_digit fp"
    and ep: "ep = [] \<and> ex = 0 \<or>
             ep = ''e'' @ (if 0 \<le> ex then ''+'' else ''-'') @ digits_of (nat \<bar>ex\<bar>)"
  shows "parseFloat_string
           ((if neg then ''-'' else []) @ ip @ (if fp = [] then [] else ''.'' @ fp) @ ep) =
         mk_dec (signed neg (nat_of_digits 10 (ip @ fp))) (ex - int (length fp))"
proof -
  let ?dp = "if fp = [] then [] else ''.'' @ fp"
  have e0: "ep = [] \<or> \<not> is_digit (hd ep)" using ep by auto
  have pe: "parse_exponent ep = ex"
    using ep parse_exponent_rendered [of ex] by (auto simp: parse_exponent_Nil)
  have r: "split_sign (skip_space ((if neg then ''-'' else []) @ ip @ ?dp @ ep)) =
             (neg, ip @ ?dp @ ep)"
    by (rule sign_prefix_scan [OF ip])
  have inf: "take 8 (ip @ ?dp @ ep) \<noteq> ''Infinity''" by (rule not_Infinity [OF ip])
  have rest: "?dp @ ep = [] \<or> \<not> is_digit (hd (?dp @ ep))" using e0 by auto
  have tw: "takeWhile is_digit (ip @ ?dp @ ep) = ip" "dropWhile is_digit (ip @ ?dp @ ep) = ?dp @ ep"
    using takeWhile_digits [OF ip(1) rest] by simp_all
  show ?thesis
  proof (cases "fp = []")
    case True
    have h: "take 1 ep \<noteq> ''.''" using ep by auto
    show ?thesis
      unfolding parseFloat_string_def r
      using inf tw True h ip(2) pe by (simp add: Let_def)
  next
    case False
    have tf: "takeWhile is_digit (fp @ ep) = fp" "dropWhile is_digit (fp @ ep) = ep"
      using takeWhile_digits [OF fp e0] by simp_all
    show ?thesis
      unfolding parseFloat_string_def r
      using inf tw tf False ip(2) pe by (simp add: Let_def)
  qed
qed

lemma list_all_take_drop:
  "list_all P xs \<Longrightarrow> list_all P (take n xs)" "list_all P xs \<Longrightarrow> list_all P (drop n xs)"
  by (auto simp: list_all_iff dest: in_set_takeD in_set_dropD)

lemma is_digit_zero [simp]: "is_digit CHR ''0''"
  by (simp add: is_digit_def)

lemma list_all_zeros: "list_all is_digit (replicate j CHR ''0'')"
  by (simp add: list_all_iff)

lemma signed_times: "signed neg (a * b) = signed neg a * int b"
  by (simp add: signed_def)

lemma mk_dec_normal: "normalise m e = (m', e') \<Longrightarrow> mk_dec m' e' = Dec m' e'"
  by (simp add: mk_dec_def normalise_idem)

lemma render_digits_expo:
  assumes "\<not> (int (length ds) \<le> n \<and> n \<le> 21)" "\<not> (0 < n \<and> n \<le> 21)" "\<not> (-6 < n \<and> n \<le> 0)"
  shows "render_digits ds n =
           (if int (length ds) = 1 then ds else take 1 ds @ ''.'' @ drop 1 ds)
           @ ''e'' @ (if 0 \<le> n - 1 then ''+'' else ''-'') @ digits_of (nat \<bar>n - 1\<bar>)"
  by (simp only: render_digits_def Let_def assms if_False)

lemma parseFloat_string_rendered:
  assumes nz: "m \<noteq> 0"
  shows "parseFloat_string
           ((if m < 0 then ''-'' else []) @
            render_digits (digits_of (nat \<bar>m\<bar>)) (int (length (digits_of (nat \<bar>m\<bar>))) + e)) =
         mk_dec m e"
proof -
  let ?ds = "digits_of (nat \<bar>m\<bar>)"
  let ?k = "int (length ?ds)"
  let ?n = "?k + e"
  have ds: "list_all is_digit ?ds" by (rule digits_of_digits)
  have k1: "1 \<le> ?k" using digits_of_not_Nil [of "nat \<bar>m\<bar>"] by (cases ?ds) simp_all
  have val: "signed (m < 0) (nat_of_digits 10 ?ds) = m"
    by (simp add: nat_of_digits_digits_of signed_abs)
  consider (plain) "?k \<le> ?n" "?n \<le> 21"
    | (point) "\<not> (?k \<le> ?n \<and> ?n \<le> 21)" "0 < ?n" "?n \<le> 21"
    | (small) "\<not> (?k \<le> ?n \<and> ?n \<le> 21)" "\<not> (0 < ?n \<and> ?n \<le> 21)" "-6 < ?n" "?n \<le> 0"
    | (expo) "\<not> (?k \<le> ?n \<and> ?n \<le> 21)" "\<not> (0 < ?n \<and> ?n \<le> 21)" "\<not> (-6 < ?n \<and> ?n \<le> 0)"
    by blast
  then show ?thesis
  proof cases
    case plain
    let ?j = "nat (?n - ?k)"
    have r: "render_digits ?ds ?n = ?ds @ replicate ?j CHR ''0''"
      using plain by (simp add: render_digits_def Let_def)
    have ip: "list_all is_digit (?ds @ replicate ?j CHR ''0'')" "?ds @ replicate ?j CHR ''0'' \<noteq> []"
      using ds digits_of_not_Nil by (simp_all add: list_all_zeros)
    have "parseFloat_string ((if m < 0 then ''-'' else []) @ render_digits ?ds ?n) =
          mk_dec (m * 10 ^ ?j) 0"
      using parseFloat_string_shape [OF ip, of "[]" "[]" 0 "m < 0"]
      by (simp add: r nat_of_digits_append_zeros signed_times val)
    also have "mk_dec (m * 10 ^ ?j) 0 = mk_dec m e"
      using normalise_times_ten [of m ?j e] plain by (simp add: mk_dec_def)
    finally show ?thesis .
  next
    case point
    then have lt: "?n < ?k" by linarith
    let ?ip = "take (nat ?n) ?ds" and ?fp = "drop (nat ?n) ?ds"
    have r: "render_digits ?ds ?n = ?ip @ ''.'' @ ?fp"
      using point by (simp add: render_digits_def Let_def)
    have ipne: "?ip \<noteq> []" using point(2) digits_of_not_Nil [of "nat \<bar>m\<bar>"] by simp
    have fpne: "?fp \<noteq> []" using lt point(2) by simp
    have ip: "list_all is_digit ?ip" and fp: "list_all is_digit ?fp"
      using ds by (simp_all add: list_all_take_drop)
    have len: "int (length ?fp) = ?k - ?n" using lt point(2) by simp
    have "parseFloat_string ((if m < 0 then ''-'' else []) @ ?ip @
             (if ?fp = [] then [] else ''.'' @ ?fp) @ []) =
          mk_dec (signed (m < 0) (nat_of_digits 10 (?ip @ ?fp))) (0 - int (length ?fp))"
      by (rule parseFloat_string_shape [OF ip ipne fp]) simp
    then have "parseFloat_string ((if m < 0 then ''-'' else []) @ render_digits ?ds ?n) =
          mk_dec m (0 - (?k - ?n))"
      using fpne by (simp only: r val len if_False append_Nil2 append_take_drop_id)
    moreover have "0 - (?k - ?n) = e" by simp
    ultimately show ?thesis by (simp only:)
  next
    case small
    let ?z = "replicate (nat (- ?n)) CHR ''0''"
    let ?fp = "?z @ ?ds"
    have r: "render_digits ?ds ?n = ''0'' @ ''.'' @ ?fp"
      using small by (simp add: render_digits_def Let_def)
    have fp: "list_all is_digit ?fp" using ds by (simp add: list_all_zeros)
    have fpne: "?fp \<noteq> []" using digits_of_not_Nil by simp
    have ip: "list_all is_digit ''0''" "''0'' \<noteq> []" by simp_all
    have len: "int (length ?fp) = ?k - ?n" using small by simp
    have v: "nat_of_digits 10 (''0'' @ ?fp) = nat_of_digits 10 ?ds"
      by (simp add: nat_of_digits_Cons_zero nat_of_digits_zeros_append)
    have "parseFloat_string ((if m < 0 then ''-'' else []) @ ''0'' @
             (if ?fp = [] then [] else ''.'' @ ?fp) @ []) =
          mk_dec (signed (m < 0) (nat_of_digits 10 (''0'' @ ?fp))) (0 - int (length ?fp))"
      by (rule parseFloat_string_shape [OF ip fp]) simp
    then have "parseFloat_string ((if m < 0 then ''-'' else []) @ render_digits ?ds ?n) =
          mk_dec m (0 - (?k - ?n))"
      using fpne by (simp only: r v val len if_False append_Nil2)
    moreover have "0 - (?k - ?n) = e" by simp
    ultimately show ?thesis by (simp only:)
  next
    case expo
    let ?ip = "take 1 ?ds" and ?fp = "drop 1 ?ds"
    let ?ep = "''e'' @ (if 0 \<le> ?n - 1 then ''+'' else ''-'') @ digits_of (nat \<bar>?n - 1\<bar>)"
    have k: "(?k = 1) = (?fp = [])" using k1 by auto
    have r0: "render_digits ?ds ?n =
        (if ?k = 1 then ?ds else ?ip @ ''.'' @ ?fp) @ ?ep"
      by (rule render_digits_expo [OF expo])
    have pre: "(if ?k = 1 then ?ds else ?ip @ ''.'' @ ?fp) =
               ?ip @ (if ?fp = [] then [] else ''.'' @ ?fp)"
    proof (cases "?k = 1")
      case True
      then have "?ip = ?ds" "?fp = []" by simp_all
      with True show ?thesis by simp
    next
      case False
      with k show ?thesis by simp
    qed
    have r: "render_digits ?ds ?n = ?ip @ (if ?fp = [] then [] else ''.'' @ ?fp) @ ?ep"
      by (simp only: r0 pre append_assoc)
    have ipne: "?ip \<noteq> []" using digits_of_not_Nil [of "nat \<bar>m\<bar>"] by simp
    have ip: "list_all is_digit ?ip" and fp: "list_all is_digit ?fp"
      using ds by (simp_all add: list_all_take_drop)
    have len: "int (length ?fp) = ?k - 1" using k1 by simp
    have "parseFloat_string ((if m < 0 then ''-'' else []) @ ?ip @
             (if ?fp = [] then [] else ''.'' @ ?fp) @ ?ep) =
          mk_dec (signed (m < 0) (nat_of_digits 10 (?ip @ ?fp))) (?n - 1 - int (length ?fp))"
      by (rule parseFloat_string_shape [OF ip ipne fp]) simp
    then have "parseFloat_string ((if m < 0 then ''-'' else []) @ render_digits ?ds ?n) =
          mk_dec m (?n - 1 - (?k - 1))"
      by (simp only: r val len append_take_drop_id)
    moreover have "?n - 1 - (?k - 1) = e" by simp
    ultimately show ?thesis by (simp only:)
  qed
qed

lemma parseFloat_number: "parseFloat (JNum (Dec m e)) = Some (mk_dec m e)"
proof -
  obtain m' e' where n: "normalise m e = (m', e')" by (cases "normalise m e")
  show ?thesis
  proof (cases "m' = 0")
    case True
    with normalise_zero [OF n] have m: "m = 0" by simp
    with n have "m' = 0" "e' = 0" by (simp_all add: normalise.simps)
    have z: "parseFloat_string ''0'' = Dec 0 0" by code_simp
    from m show ?thesis by (simp add: parseFloat_def z mk_dec_def normalise.simps)
  next
    case False
    from parseFloat_string_rendered [OF False, of e']
    have "parseFloat_string (Number_toString (Dec m e)) = mk_dec m' e'"
      using n False by (simp add: Let_def)
    with n show ?thesis by (simp add: parseFloat_def mk_dec_normal) (simp add: mk_dec_def)
  qed
qed

lemma not_hex_prefix:
  assumes "list_all is_digit r"
  shows "take 2 r \<noteq> ''0x''" "take 2 r \<noteq> ''0X''"
proof -
  have "\<not> is_digit CHR ''x''" "\<not> is_digit CHR ''X''" by simp_all
  with assms show "take 2 r \<noteq> ''0x''" "take 2 r \<noteq> ''0X''"
    by (cases r; cases "tl r"; auto)+
qed

lemma parseInt_string_digits:
  assumes "list_all is_digit r" and "r \<noteq> []"
  shows "parseInt_string ((if neg then ''-'' else []) @ r) =
           num_of_int (signed neg (nat_of_digits 10 r))"
proof -
  have s: "split_sign (skip_space ((if neg then ''-'' else []) @ r @ [])) = (neg, r @ [])"
    by (rule sign_prefix_scan [OF assms])
  have t: "takeWhile is_digit r = r"
    using takeWhile_digits(1) [OF assms(1), of "[]"] by simp
  from s have s': "split_sign (skip_space ((if neg then ''-'' else []) @ r)) = (neg, r)"
    by simp
  show ?thesis
    unfolding parseInt_string_def s'
    using not_hex_prefix [OF assms(1)] assms(2) by (simp add: Let_def t)
qed

lemma render_digits_plain:
  assumes "int (length ds) \<le> n" "n \<le> 21"
  shows "render_digits ds n = ds @ replicate (nat (n - int (length ds))) CHR ''0''"
  using assms by (simp add: render_digits_def Let_def)

lemma parseInt_number:
  assumes "plain_integer (Dec m e)"
  shows "parseInt (JNum (Dec m e)) = Some (Dec m e)"
proof -
  from assms have n: "normalise m e = (m, e)" and e: "0 \<le> e"
    and k: "int (length (digits_of (nat \<bar>m\<bar>))) + e \<le> 21" by simp_all
  show ?thesis
  proof (cases "m = 0")
    case True
    with n have "e = 0" by (simp add: normalise.simps)
    have z: "parseInt_string ''0'' = Dec 0 0" by code_simp
    from True \<open>e = 0\<close> show ?thesis by (simp add: parseInt_def z normalise.simps)
  next
    case False
    let ?ds = "digits_of (nat \<bar>m\<bar>)"
    let ?r = "?ds @ replicate (nat e) CHR ''0''"
    have r: "render_digits ?ds (int (length ?ds) + e) = ?r"
      using render_digits_plain [of ?ds "int (length ?ds) + e"] e k by simp
    have d: "list_all is_digit ?r" "?r \<noteq> []"
      using digits_of_digits digits_of_not_Nil by (simp_all add: list_all_zeros)
    have "parseInt_string ((if m < 0 then ''-'' else []) @ ?r) =
            num_of_int (signed (m < 0) (nat_of_digits 10 ?r))"
      by (rule parseInt_string_digits [OF d])
    also have "signed (m < 0) (nat_of_digits 10 ?r) = m * 10 ^ nat e"
      by (simp add: nat_of_digits_append_zeros signed_times nat_of_digits_digits_of signed_abs)
    also have "num_of_int (m * 10 ^ nat e) = Dec m e"
      using normalise_times_ten [of m "nat e" e] e n by (simp add: num_of_int_def mk_dec_def)
    finally have "parseInt_string ((if m < 0 then ''-'' else []) @ ?r) = Dec m e" .
    with False n r show ?thesis by (simp add: parseInt_def Let_def)
  qed
qed

lemma parseFloat_canonical:
  assumes "canonical x"
  shows "parseFloat (JNum x) = Some x"
proof (cases x)
  case NaN
  have "parseFloat (JNum NaN) = Some NaN" by code_simp
  with NaN show ?thesis by simp
next
  case PosInf
  have "parseFloat (JNum PosInf) = Some PosInf" by code_simp
  with PosInf show ?thesis by simp
next
  case NegInf
  have "parseFloat (JNum NegInf) = Some NegInf" by code_simp
  with NegInf show ?thesis by simp
next
  case (Dec m e)
  with assms show ?thesis by (simp add: parseFloat_number mk_dec_def)
qed

lemma is_canonical_number_cases: "is_canonical_number v \<Longrightarrow> \<exists>x. v = JNum x \<and> canonical x"
  by (cases v) simp_all

lemma is_plain_integer_cases: "is_plain_integer v \<Longrightarrow> \<exists>x. v = JNum x \<and> plain_integer x"
  by (cases v) simp_all

lemma plain_integer_parseInt: "plain_integer x \<Longrightarrow> parseInt (JNum x) = Some x"
proof (cases x)
  case (Dec m e)
  assume "plain_integer x"
  with Dec show ?thesis by (simp only: parseInt_number)
qed simp_all

lemma parseFloat_canonical_list:
  "list_all is_canonical_number xs \<Longrightarrow>
   \<exists>ps. sequence_opt (map parseFloat xs) = Some ps \<and> map JNum ps = xs"
proof (induction xs)
  case Nil
  then show ?case by simp
next
  case (Cons x xs)
  then obtain ps where ps: "sequence_opt (map parseFloat xs) = Some ps" "map JNum ps = xs"
    by auto
  from Cons.prems obtain y where y: "x = JNum y" "canonical y"
    by (auto dest: is_canonical_number_cases)
  with ps show ?case by (simp add: parseFloat_canonical)
qed

lemma coerced_declared_value:
  assumes "declared_value c v"
  shows "coerced_payload c v = Some v"
proof (cases c)
  case Clf_data
  with assms show ?thesis
    by (auto dest!: is_canonical_number_cases simp: parseFloat_canonical)
next
  case Mc_data
  with assms obtain xs where xs: "v = JArr xs" "list_all is_canonical_number xs"
    by (cases v) (auto simp: elements_def)
  from parseFloat_canonical_list [OF xs(2)] Mc_data xs(1) show ?thesis
    by (auto simp: elements_def)
next
  case Feedback_status
  with assms show ?thesis by (cases v) simp_all
next
  case Run_number
  with assms show ?thesis
    by (auto dest!: is_plain_integer_cases simp: plain_integer_parseInt)
next
  case Feedback_number
  with assms show ?thesis
    by (auto dest!: is_plain_integer_cases simp: plain_integer_parseInt)
qed

lemma canonical_is_number: "is_canonical_number v \<Longrightarrow> is_number v"
  by (cases v) simp_all

lemma plain_is_number: "is_plain_integer v \<Longrightarrow> is_number v"
  by (cases v) simp_all

lemma list_all_mono': "list_all P xs \<Longrightarrow> (\<And>x. P x \<Longrightarrow> Q x) \<Longrightarrow> list_all Q xs"
  by (simp add: list_all_iff)

lemma declared_payload_valid: "declared_payload c b \<Longrightarrow> valid_payload c b"
  by (cases c)
     (auto simp: declared_payload_def valid_payload_def canonical_is_number plain_is_number
           intro: list_all_mono' [where P = is_canonical_number])

lemma declared_payload_stored:
  assumes "declared_payload c b"
  shows "submit c now b s =
           (broadcast
              (JObj [(''type'', JStr (channel_name c)),
                     (payload_field c, get_prop b (payload_field c)),
                     (''rep'', get_prop b ''rep''), (''timestamp'', JStr now)])
              (store c
                 (JObj [(payload_field c, get_prop b (payload_field c)),
                        (''rep'', get_prop b ''rep''), (''timestamp'', JStr now)]) s),
            success (received_message c))"
proof -
  from assms have "status (snd (submit c now b s)) = 200"
    by (simp add: declared_payload_valid valid_payload_accepted)
  from submit_200 [OF this] obtain x r where
    x: "coerced_payload c (get_prop b (payload_field c)) = Some x" and
    r: "parseInt (get_prop b ''rep'') = Some r" and
    eq: "submit c now b s = accepted c now s x r" by blast
  from assms x have x': "x = get_prop b (payload_field c)"
    by (simp add: declared_payload_def coerced_declared_value)
  from assms obtain r' where r': "get_prop b ''rep'' = JNum r'" "plain_integer r'"
    by (auto simp: declared_payload_def dest: is_plain_integer_cases)
  with r have "r = r'" by (simp add: plain_integer_parseInt)
  with eq x' r' show ?thesis
    by (simp add: accepted_def event_of_def record_of_def)
qed

subsection \<open>What a new connection is sent\<close>

text \<open>
  One message for each slot that holds a record, in the order of the source, each built
  from the slot as it is at that moment.
\<close>

lemma replay_outbox:
  "outbox (replay ws (channel_name c) (payload_field c) v s) w =
     outbox s w @ (if w = ws \<and> ToBoolean v then [replay_message c v] else [])"
  by (simp add: replay_def ws_send_def replay_message_def)

lemma on_connection_outbox:
  "outbox (on_connection ws s) ws =
     outbox s ws @
       map (\<lambda>c. replay_message c (slot c (latestData s)))
           (filter (\<lambda>c. ToBoolean (slot c (latestData s))) all_channels)"
proof -
  have "on_connection ws s =
     (let s0 = s\<lparr>clients := Set_add ws (clients s)\<rparr>;
          s1 = replay ws (channel_name Clf_data) (payload_field Clf_data) (clf_data (latestData s0)) s0;
          s2 = replay ws (channel_name Mc_data) (payload_field Mc_data) (mc_data (latestData s1)) s1;
          s3 = replay ws (channel_name Feedback_status) (payload_field Feedback_status) (feedback_status (latestData s2)) s2;
          s4 = replay ws (channel_name Run_number) (payload_field Run_number) (run_number (latestData s3)) s3;
          s5 = replay ws (channel_name Feedback_number) (payload_field Feedback_number) (feedback_number (latestData s4)) s4
      in s5)"
    by (simp add: on_connection_def)
  then show ?thesis
    by (simp only: Let_def replay_outbox replay_frame all_channels_def)
       (simp add: all_channels_def)
qed

subsection \<open>Every outcome of a submission\<close>

text \<open>
  The body, the guard and the conversions to string decide the outcome: no body or a
  conversion that throws gives 500, a missing field gives 400, and everything else is
  accepted with the coerced payload.
\<close>

lemma join_element_ToString:
  "join_element v = Some t \<Longrightarrow> \<exists>u. ToString v = Some u"
  by (cases "v = JUndefined \<or> v = JNull") auto

lemma sequence_opt_Cons_Some:
  "sequence_opt (x # xs) = Some ys \<Longrightarrow> \<exists>t ts. x = Some t \<and> sequence_opt xs = Some ts"
  by (auto split: option.splits)

lemma joined_parseFloat:
  "sequence_opt (map join_element xs) = Some ys \<Longrightarrow>
   \<exists>zs. sequence_opt (map parseFloat xs) = Some zs"
proof (induction xs arbitrary: ys)
  case Nil
  then show ?case by simp
next
  case (Cons x xs)
  from Cons.prems have "sequence_opt (join_element x # map join_element xs) = Some ys"
    by (simp only: list.map)
  from sequence_opt_Cons_Some [OF this] obtain t ts where t: "join_element x = Some t"
    and ts: "sequence_opt (map join_element xs) = Some ts"
    by blast
  from join_element_ToString [OF t] obtain u where "ToString x = Some u" by blast
  then have "parseFloat x = Some (parseFloat_string u)" by (simp add: parseFloat_def)
  moreover from Cons.IH [OF ts] obtain zs where "sequence_opt (map parseFloat xs) = Some zs"
    by blast
  ultimately show ?case by simp
qed


lemma submit_missing:
  assumes "b \<noteq> JUndefined" "b \<noteq> JNull" "missing_required c b"
  shows "submit c now b s = (s, bad_request (missing_message c))"
  using assms submit_400_iff [of c now b s] submit_400 [of c now b s] by simp


lemma printable_coerced:
  assumes "\<not> unprintable c b" "\<not> missing_required c b"
  shows "\<exists>x r. coerced_payload c (get_prop b (payload_field c)) = Some x \<and>
               parseInt (get_prop b ''rep'') = Some r"
proof (cases c)
  case Mc_data
  with assms obtain ys where "sequence_opt (map join_element (elements (get_prop b ''params''))) = Some ys"
    by (auto simp: Array_join_def)
  from joined_parseFloat [OF this] Mc_data assms show ?thesis
    by (auto simp: parseInt_def)
qed (use assms in \<open>auto simp: parseFloat_def parseInt_def\<close>)

lemma submit_printable:
  assumes "b \<noteq> JUndefined" "b \<noteq> JNull" "\<not> missing_required c b" "\<not> unprintable c b"
  shows "\<exists>x r. coerced_payload c (get_prop b (payload_field c)) = Some x \<and>
               parseInt (get_prop b ''rep'') = Some r \<and>
               submit c now b s = accepted c now s x r"
proof -
  from printable_coerced [OF assms(4,3)] obtain x r where
    x: "coerced_payload c (get_prop b (payload_field c)) = Some x" and
    r: "parseInt (get_prop b ''rep'') = Some r" by blast
  have "submit c now b s = accepted c now s x r"
  proof (cases c)
    case Clf_data
    with assms x r show ?thesis
      by (auto simp: post_clf_data_def Let_def accepted_def event_of_def record_of_def store_def
            parseFloat_def parseInt_def)
  next
    case Mc_data
    with assms x r show ?thesis
      by (auto simp: post_mc_data_def Let_def accepted_def event_of_def record_of_def store_def
            parseInt_def Array_join_def)
  next
    case Feedback_status
    with assms x r show ?thesis
      by (auto simp: post_feedback_status_def Let_def accepted_def event_of_def record_of_def
            store_def parseInt_def)
  next
    case Run_number
    with assms x r show ?thesis
      by (auto simp: post_run_number_def Let_def accepted_def event_of_def record_of_def store_def
            parseInt_def)
  next
    case Feedback_number
    with assms x r show ?thesis
      by (auto simp: post_feedback_number_def Let_def accepted_def event_of_def record_of_def
            store_def parseInt_def)
  qed
  with x r show ?thesis by blast
qed

lemma missing_required_Mc:
  "missing_required Mc_data b =
     (\<not> Array_isArray (get_prop b ''params'') \<or> get_prop b ''rep'' = JUndefined)"
  by (auto simp: isArray_truthy)

lemma missing_required_other:
  "c \<noteq> Mc_data \<Longrightarrow>
   missing_required c b =
     (get_prop b (payload_field c) = JUndefined \<or> get_prop b ''rep'' = JUndefined)"
  by (cases c) simp_all

lemma falsy_printable: "\<not> ToBoolean v \<Longrightarrow> \<exists>t. ToString v = Some t"
  by (cases v) simp_all

section \<open>The claims\<close>

text \<open>
  Claim C1, as amended. A motion-correction submission that has a body is answered 400
  with the state untouched (slots, connection set and every outbox, so nothing is stored
  and nothing is broadcast) exactly when \<^verbatim>\<open>params\<close> is not an array or \<^verbatim>\<open>rep\<close> is absent.
  Neither the length of the array nor the type of its elements is looked at.
\<close>

theorem mc_data_rejects_non_array:
  assumes "req_body \<noteq> JUndefined" and "req_body \<noteq> JNull"
  shows "if \<not> Array_isArray (get_prop req_body ''params'') \<or> get_prop req_body ''rep'' = JUndefined
         then post_mc_data now req_body s =
                (s, \<lparr>status = 400,
                     body = JObj [(''error'', JStr ''Missing required fields: params (array), rep'')]\<rparr>)
         else status (snd (post_mc_data now req_body s)) \<noteq> 400"
proof -
  have iff: "(status (snd (submit Mc_data now req_body s)) = 400) =
        (\<not> Array_isArray (get_prop req_body ''params'') \<or> get_prop req_body ''rep'' = JUndefined)"
    using assms submit_400_iff [of Mc_data now req_body s] by (auto simp: isArray_truthy)
  show ?thesis
  proof (cases "\<not> Array_isArray (get_prop req_body ''params'') \<or> get_prop req_body ''rep'' = JUndefined")
    case True
    with iff have "status (snd (submit Mc_data now req_body s)) = 400" by simp
    from submit_400 [OF this] True show ?thesis by (simp add: bad_request_def)
  next
    case False
    with iff show ?thesis by simp
  qed
qed

text \<open>The theorem at a request whose \<^verbatim>\<open>params\<close> is a string.\<close>

theorem mc_data_rejects_non_array_witness:
  "JObj [(''params'', JStr ''abc''), (''rep'', JNum (Dec 42 0))] \<noteq> JUndefined \<and>
   JObj [(''params'', JStr ''abc''), (''rep'', JNum (Dec 42 0))] \<noteq> JNull \<and>
   post_mc_data example_now (JObj [(''params'', JStr ''abc''), (''rep'', JNum (Dec 42 0))]) one_observer =
     (one_observer,
      \<lparr>status = 400, body = JObj [(''error'', JStr ''Missing required fields: params (array), rep'')]\<rparr>)"
  using mc_data_rejects_non_array
          [of "JObj [(''params'', JStr ''abc''), (''rep'', JNum (Dec 42 0))]" example_now one_observer]
  by simp

text \<open>
  Claim C1 as stated fails: with one open observer and no motion-correction record yet, a
  submission whose \<^verbatim>\<open>params\<close> has five elements is answered 200, is stored, and is sent to
  the observer.
\<close>

theorem mc_data_five_params_accepted:
  "mc_data (latestData one_observer) = JNull \<and>
   clients one_observer = [1] \<and> readyState one_observer 1 = OPEN \<and> outbox one_observer 1 = [] \<and>
   status (snd (submit Mc_data example_now five_params one_observer)) = 200 \<and>
   mc_data (latestData (fst (submit Mc_data example_now five_params one_observer))) =
     JObj [(''params'', JArr [JNum (Dec 1 (-3)), JNum (Dec (-2) (-3)), JNum (Dec 3 (-3)),
                              JNum (Dec 1 (-4)), JNum (Dec (-2) (-4))]),
           (''rep'', JNum (Dec 42 0)), (''timestamp'', JStr example_now)] \<and>
   outbox (fst (submit Mc_data example_now five_params one_observer)) 1 =
     [JSON_stringify (JObj [(''type'', JStr ''mc_data''),
        (''params'', JArr [JNum (Dec 1 (-3)), JNum (Dec (-2) (-3)), JNum (Dec 3 (-3)),
                           JNum (Dec 1 (-4)), JNum (Dec (-2) (-4))]),
        (''rep'', JNum (Dec 42 0)), (''timestamp'', JStr example_now)])]"
  by code_simp




text \<open>
  Claim C3 at a failing input. After the classifier record \<^verbatim>\<open>{value: 0.75, rep: 42}\<close> is
  stored, a socket that connects is sent one message with the keys \<^verbatim>\<open>type\<close>, \<^verbatim>\<open>value\<close> and
  \<^verbatim>\<open>timestamp\<close>: the \<^verbatim>\<open>rep\<close> of the stored record is not in it, so the message is not the
  one that the broadcast of the same record carries.
\<close>

theorem replay_omits_rep:
  "clf_data (latestData (run [Post Clf_data example_now
       (JObj [(''value'', JNum (Dec 75 (-2))), (''rep'', JNum (Dec 42 0))])] init_server)) =
     JObj [(''value'', JNum (Dec 75 (-2))), (''rep'', JNum (Dec 42 0)),
           (''timestamp'', JStr example_now)] \<and>
   outbox (run [Post Clf_data example_now
       (JObj [(''value'', JNum (Dec 75 (-2))), (''rep'', JNum (Dec 42 0))]), Connection 1]
       init_server) 1 =
     [JSON_stringify (JObj [(''type'', JStr ''clf_data''), (''value'', JNum (Dec 75 (-2))),
                            (''timestamp'', JStr example_now)])] \<and>
   JSON_stringify (JObj [(''type'', JStr ''clf_data''), (''value'', JNum (Dec 75 (-2))),
                         (''timestamp'', JStr example_now)]) \<noteq>
   JSON_stringify (JObj [(''type'', JStr ''clf_data''), (''value'', JNum (Dec 75 (-2))),
                         (''rep'', JNum (Dec 42 0)), (''timestamp'', JStr example_now)])"
  by code_simp

text \<open>
  Claim C4. On every channel a payload of the right JavaScript types is accepted, and one
  of the declared types is stored as it is, field for field, with the clock reading \<open>now\<close>
  of the call as its timestamp. An accepted submission (status 200) has these effects: the
  slot of the channel holds the record made of the coerced payload, the parsed \<^verbatim>\<open>rep\<close> and
  \<open>now\<close>; the final state is the broadcast run on the state that already holds the record;
  and the event carries the same payload, \<^verbatim>\<open>rep\<close> and timestamp as the record. Each open
  socket of the connection set is handed that one message, every other outbox is unchanged.
\<close>

theorem submit_stores_then_broadcasts:
  "(valid_payload c b \<longrightarrow> status (snd (submit c now b s)) = 200) \<and>
   (declared_payload c b \<longrightarrow>
      slot c (latestData (fst (submit c now b s))) =
        JObj [(payload_field c, get_prop b (payload_field c)),
              (''rep'', get_prop b ''rep''), (''timestamp'', JStr now)]) \<and>
   (status (snd (submit c now b s)) = 200 \<longrightarrow>
      (\<exists>x r. coerced_payload c (get_prop b (payload_field c)) = Some x \<and>
             parseInt (get_prop b ''rep'') = Some r \<and>
             fst (submit c now b s) =
               broadcast (event_of c x r now) (store c (record_of c x r now) s) \<and>
             slot c (latestData (fst (submit c now b s))) = record_of c x r now \<and>
             (distinct (clients s) \<longrightarrow>
                (\<forall>w. outbox (fst (submit c now b s)) w =
                       (if w \<in> set (clients s) \<and> readyState s w = OPEN
                        then outbox s w @ [JSON_stringify (event_of c x r now)]
                        else outbox s w)))))"
proof (intro conjI impI)
  assume "valid_payload c b"
  then show "status (snd (submit c now b s)) = 200" by (rule valid_payload_accepted)
next
  assume "declared_payload c b"
  then show "slot c (latestData (fst (submit c now b s))) =
        JObj [(payload_field c, get_prop b (payload_field c)),
              (''rep'', get_prop b ''rep''), (''timestamp'', JStr now)]"
    by (simp add: declared_payload_stored store_def slot_set_slot)
next
  assume "status (snd (submit c now b s)) = 200"
  from submit_200 [OF this] obtain x r where
    x: "coerced_payload c (get_prop b (payload_field c)) = Some x" and
    r: "parseInt (get_prop b ''rep'') = Some r" and
    eq: "submit c now b s = accepted c now s x r" by blast
  have "fst (submit c now b s) =
          broadcast (event_of c x r now) (store c (record_of c x r now) s)"
    by (simp add: eq accepted_def)
  moreover have "slot c (latestData (fst (submit c now b s))) = record_of c x r now"
    by (simp add: eq accepted_state slot_set_slot)
  moreover have "distinct (clients s) \<longrightarrow>
      (\<forall>w. outbox (fst (submit c now b s)) w =
             (if w \<in> set (clients s) \<and> readyState s w = OPEN
              then outbox s w @ [JSON_stringify (event_of c x r now)]
              else outbox s w))"
    by (simp add: eq accepted_outbox)
  ultimately show "\<exists>x r. coerced_payload c (get_prop b (payload_field c)) = Some x \<and>
             parseInt (get_prop b ''rep'') = Some r \<and>
             fst (submit c now b s) =
               broadcast (event_of c x r now) (store c (record_of c x r now) s) \<and>
             slot c (latestData (fst (submit c now b s))) = record_of c x r now \<and>
             (distinct (clients s) \<longrightarrow>
                (\<forall>w. outbox (fst (submit c now b s)) w =
                       (if w \<in> set (clients s) \<and> readyState s w = OPEN
                        then outbox s w @ [JSON_stringify (event_of c x r now)]
                        else outbox s w)))"
    using x r by blast
qed

text \<open>The theorem at the classifier submission \<^verbatim>\<open>{value: 0.75, rep: 42}\<close> with one open observer.\<close>

theorem submit_stores_then_broadcasts_witness:
  "valid_payload Clf_data clf_example \<and>
   declared_payload Clf_data clf_example \<and>
   status (snd (submit Clf_data example_now clf_example one_observer)) = 200 \<and>
   distinct (clients one_observer) \<and>
   slot Clf_data (latestData (fst (submit Clf_data example_now clf_example one_observer))) =
     JObj [(''value'', JNum (Dec 75 (-2))), (''rep'', JNum (Dec 42 0)),
           (''timestamp'', JStr example_now)] \<and>
   outbox (fst (submit Clf_data example_now clf_example one_observer)) 1 =
     outbox one_observer 1 @
     [JSON_stringify (JObj [(''type'', JStr ''clf_data''), (''value'', JNum (Dec 75 (-2))),
                            (''rep'', JNum (Dec 42 0)), (''timestamp'', JStr example_now)])]"
proof -
  have v: "valid_payload Clf_data clf_example" by code_simp
  have p: "declared_payload Clf_data clf_example" by code_simp
  have d: "distinct (clients one_observer)" by code_simp
  have o: "1 \<in> set (clients one_observer) \<and> readyState one_observer 1 = OPEN" by code_simp
  have x: "coerced_payload Clf_data (get_prop clf_example (payload_field Clf_data)) = Some (JNum (Dec 75 (-2)))"
    by code_simp
  have r: "parseInt (get_prop clf_example ''rep'') = Some (Dec 42 0)" by code_simp
  from submit_stores_then_broadcasts [of Clf_data clf_example example_now one_observer] v p d o x r
  show ?thesis
    by (auto simp: record_of_def event_of_def)
qed

text \<open>
  Claim C5. A submission that is not accepted (status 400 or 500) leaves the whole state
  as it was: the slots, the connection set, and every outbox, so no observer is sent
  anything.
\<close>

theorem rejected_submit_changes_nothing:
  "status (snd (submit c now b s)) \<noteq> 200 \<Longrightarrow> fst (submit c now b s) = s"
  by (rule submit_not_200)

text \<open>The theorem at a motion-correction submission whose \<^verbatim>\<open>params\<close> is a number.\<close>

theorem rejected_submit_changes_nothing_witness:
  "status (snd (submit Mc_data example_now (JObj [(''params'', JNum (Dec 1 0)), (''rep'', JNum (Dec 42 0))]) one_observer)) \<noteq> 200 \<and>
   fst (submit Mc_data example_now (JObj [(''params'', JNum (Dec 1 0)), (''rep'', JNum (Dec 42 0))]) one_observer) = one_observer"
proof -
  have h: "status (snd (submit Mc_data example_now (JObj [(''params'', JNum (Dec 1 0)), (''rep'', JNum (Dec 42 0))]) one_observer)) \<noteq> 200"
    by code_simp
  from h rejected_submit_changes_nothing [OF h] show ?thesis by simp
qed

text \<open>
  Claim C6. After any sequence of events, \<^verbatim>\<open>/health\<close> answers with the status, its clock
  reading, the size of the connection set and \<^verbatim>\<open>latestData\<close>, and \<^verbatim>\<open>/api/latest-data\<close>
  answers with \<^verbatim>\<open>latestData\<close> alone; that object has the five channel keys, each with the
  current slot: the complete record, or \<^verbatim>\<open>null\<close> for a channel never written. Both reads
  return the state unchanged.
\<close>

theorem health_mirrors_store:
  "get_health now (run es init_server) =
     (run es init_server,
      \<lparr>status = 200,
       body = JObj
         [(''status'', JStr ''ok''),
          (''timestamp'', JStr now),
          (''connectedClients'', JNum (num_of_int (int (length (clients (run es init_server)))))),
          (''latestData'', latest_json (latestData (run es init_server)))]\<rparr>) \<and>
   get_latest_data (run es init_server) =
     (run es init_server, \<lparr>status = 200, body = latest_json (latestData (run es init_server))\<rparr>) \<and>
   latest_json (latestData (run es init_server)) =
     JObj (map (\<lambda>c. (channel_name c, slot c (latestData (run es init_server)))) all_channels)"
  using health_latest_json [of "run es init_server", OF reachable_well_shaped]
  by (simp add: get_health_def get_latest_data_def latest_json_channels)

text \<open>
  Claim C7, as amended. \<^verbatim>\<open>broadcast\<close> serialises the event once; every socket of the
  connection set whose \<^verbatim>\<open>readyState\<close> is open is handed that same string, exactly once, and
  every other socket, in the set or not, is handed nothing.
\<close>

theorem broadcast_same_message_to_open_clients:
  assumes "distinct (clients s)"
  shows "outbox (broadcast event s) w =
           (if w \<in> set (clients s) \<and> readyState s w = OPEN
            then outbox s w @ [JSON_stringify event] else outbox s w)"
  using assms by (rule broadcast_outbox)

text \<open>The theorem at a state with an open and a closing socket.\<close>

theorem broadcast_same_message_to_open_clients_witness:
  "distinct (clients closing_observer) \<and>
   outbox (broadcast (event_of Clf_data (JNum (Dec 75 (-2))) (Dec 42 0) example_now) closing_observer) 1 =
     outbox closing_observer 1 @
       [JSON_stringify (event_of Clf_data (JNum (Dec 75 (-2))) (Dec 42 0) example_now)]"
proof -
  have d: "distinct (clients closing_observer)" by code_simp
  have o: "1 \<in> set (clients closing_observer) \<and> readyState closing_observer 1 = OPEN"
    by code_simp
  from d o broadcast_same_message_to_open_clients [OF d, of _ 1] show ?thesis by simp
qed

text \<open>
  Claim C7 as stated fails: socket 2 is in the connection set and closing; the broadcast
  hands the message to socket 1 and nothing to socket 2.
\<close>

theorem broadcast_skips_closing_client:
  "clients closing_observer = [1, 2] \<and>
   readyState closing_observer 2 = CLOSING \<and>
   outbox closing_observer 2 = [] \<and>
   outbox (broadcast (event_of Clf_data (JNum (Dec 75 (-2))) (Dec 42 0) example_now)
             closing_observer) 2 = [] \<and>
   outbox (broadcast (event_of Clf_data (JNum (Dec 75 (-2))) (Dec 42 0) example_now)
             closing_observer) 1 =
     [JSON_stringify (event_of Clf_data (JNum (Dec 75 (-2))) (Dec 42 0) example_now)]"
  by code_simp

text \<open>
  Claim C8. Every slot starts as \<^verbatim>\<open>null\<close>; an accepted submission leaves a record in the
  slot of its channel; and no sequence of events (submissions, reads, connections, closes,
  errors, transport changes) turns a slot that holds a record back into \<^verbatim>\<open>null\<close>.
\<close>

theorem slots_never_deleted:
  "slot c (latestData init_server) = JNull \<and>
   (status (snd (submit c now b s)) = 200 \<longrightarrow>
      is_record c (slot c (latestData (fst (submit c now b s))))) \<and>
   (is_record c (slot c (latestData s)) \<longrightarrow> is_record c (slot c (latestData (run es s)))) \<and>
   (slot c (latestData s) \<noteq> JNull \<longrightarrow> slot c (latestData (run es s)) \<noteq> JNull)"
proof (intro conjI impI)
  show "slot c (latestData init_server) = JNull" by (rule init_slot)
next
  assume "status (snd (submit c now b s)) = 200"
  from submit_200 [OF this] obtain x r where
    x: "coerced_payload c (get_prop b (payload_field c)) = Some x" and
    eq: "submit c now b s = accepted c now s x r" by blast
  show "is_record c (slot c (latestData (fst (submit c now b s))))"
    by (simp add: eq accepted_state slot_set_slot record_of_is_record coerced_payload_typed [OF x])
next
  assume "is_record c (slot c (latestData s))"
  then show "is_record c (slot c (latestData (run es s)))" by (rule run_is_record)
next
  assume "slot c (latestData s) \<noteq> JNull"
  then show "slot c (latestData (run es s)) \<noteq> JNull" by (rule run_not_null)
qed

text \<open>The theorem at a classifier record followed by five more events.\<close>

theorem slots_never_deleted_witness:
  "status (snd (submit Clf_data example_now clf_example init_server)) = 200 \<and>
   is_record Clf_data
     (slot Clf_data (latestData (fst (submit Clf_data example_now clf_example init_server)))) \<and>
   is_record Clf_data
     (slot Clf_data (latestData
        (run [Connection 1, Post Mc_data example_now five_params, GetHealth example_now,
              Post Clf_data example_now (JObj []), Close 1]
           (fst (submit Clf_data example_now clf_example init_server))))) \<and>
   slot Clf_data (latestData
        (run [Connection 1, Post Mc_data example_now five_params, GetHealth example_now,
              Post Clf_data example_now (JObj []), Close 1]
           (fst (submit Clf_data example_now clf_example init_server)))) \<noteq> JNull"
proof -
  have h: "status (snd (submit Clf_data example_now clf_example init_server)) = 200"
    by code_simp
  from slots_never_deleted
         [of Clf_data example_now clf_example init_server
             "[Connection 1, Post Mc_data example_now five_params, GetHealth example_now,
               Post Clf_data example_now (JObj []), Close 1]"] h
  have r: "is_record Clf_data
     (slot Clf_data (latestData (fst (submit Clf_data example_now clf_example init_server))))"
    by blast
  from slots_never_deleted
         [of Clf_data example_now clf_example "fst (submit Clf_data example_now clf_example init_server)"
             "[Connection 1, Post Mc_data example_now five_params, GetHealth example_now,
               Post Clf_data example_now (JObj []), Close 1]"] r h
  show ?thesis by (auto dest: is_record_not_null)
qed

text \<open>
  Claim C9, as amended. \<^verbatim>\<open>value\<close>, \<^verbatim>\<open>sent\<close> and \<^verbatim>\<open>rep\<close> are compared with \<^verbatim>\<open>undefined\<close> and
  nothing else, so on the four channels that take them a request is answered 400 exactly
  when one of its fields is \<^verbatim>\<open>undefined\<close>, and a field that is present passes when it is
  falsy (a falsy value always converts to a string): it is coerced, stored and broadcast,
  as are the value 0, the status \<^verbatim>\<open>false\<close> and the \<^verbatim>\<open>rep\<close> 0 on each channel. The \<^verbatim>\<open>params\<close> of
  \<^verbatim>\<open>mc_data\<close> is tested for truthiness and with \<^verbatim>\<open>Array.isArray\<close> instead, so a falsy
  \<^verbatim>\<open>params\<close> is answered 400 as missing; with \<^verbatim>\<open>params\<close> an array, a falsy \<^verbatim>\<open>rep\<close> passes
  there too.
\<close>

theorem falsy_values_pass_validation:
  "(c \<noteq> Mc_data \<longrightarrow>
      (status (snd (submit c now b s)) = 400) =
        (b \<noteq> JUndefined \<and> b \<noteq> JNull \<and>
         (get_prop b (payload_field c) = JUndefined \<or> get_prop b ''rep'' = JUndefined))) \<and>
   ((status (snd (submit Mc_data now b s)) = 400) =
        (b \<noteq> JUndefined \<and> b \<noteq> JNull \<and>
         (\<not> ToBoolean (get_prop b ''params'') \<or> \<not> Array_isArray (get_prop b ''params'') \<or>
          get_prop b ''rep'' = JUndefined))) \<and>
   (b \<noteq> JUndefined \<and> b \<noteq> JNull \<and> \<not> ToBoolean (get_prop b ''params'') \<longrightarrow>
      submit Mc_data now b s =
        (s, \<lparr>status = 400,
             body = JObj [(''error'', JStr ''Missing required fields: params (array), rep'')]\<rparr>)) \<and>
   (c \<noteq> Mc_data \<and> b \<noteq> JUndefined \<and> b \<noteq> JNull \<and>
    get_prop b (payload_field c) \<noteq> JUndefined \<and>
    (\<not> ToBoolean (get_prop b (payload_field c)) \<or>
     ToString (get_prop b (payload_field c)) \<noteq> None) \<and>
    get_prop b ''rep'' \<noteq> JUndefined \<and>
    (\<not> ToBoolean (get_prop b ''rep'') \<or> ToString (get_prop b ''rep'') \<noteq> None) \<longrightarrow>
      (\<exists>x r. coerced_payload c (get_prop b (payload_field c)) = Some x \<and>
             parseInt (get_prop b ''rep'') = Some r \<and>
             submit c now b s =
               (broadcast (event_of c x r now) (store c (record_of c x r now) s),
                success (received_message c)))) \<and>
   (b \<noteq> JUndefined \<and> b \<noteq> JNull \<and>
    Array_isArray (get_prop b ''params'') \<and>
    Array_join (elements (get_prop b ''params'')) '', '' \<noteq> None \<and>
    get_prop b ''rep'' \<noteq> JUndefined \<and>
    (\<not> ToBoolean (get_prop b ''rep'') \<or> ToString (get_prop b ''rep'') \<noteq> None) \<longrightarrow>
      (\<exists>x r. coerced_payload Mc_data (get_prop b ''params'') = Some x \<and>
             parseInt (get_prop b ''rep'') = Some r \<and>
             submit Mc_data now b s =
               (broadcast (event_of Mc_data x r now) (store Mc_data (record_of Mc_data x r now) s),
                success ''Motion correction data received''))) \<and>
   submit Clf_data now clf_zero s =
     (broadcast (event_of Clf_data (JNum (Dec 0 0)) (Dec 0 0) now)
        (store Clf_data (record_of Clf_data (JNum (Dec 0 0)) (Dec 0 0) now) s),
      success ''Classifier data received'') \<and>
   submit Feedback_status now feedback_false s =
     (broadcast (event_of Feedback_status (JBool False) (Dec 0 0) now)
        (store Feedback_status (record_of Feedback_status (JBool False) (Dec 0 0) now) s),
      success ''Neurofeedback status received'') \<and>
   submit Run_number now clf_zero s =
     (broadcast (event_of Run_number (JNum (Dec 0 0)) (Dec 0 0) now)
        (store Run_number (record_of Run_number (JNum (Dec 0 0)) (Dec 0 0) now) s),
      success ''Run number received'') \<and>
   submit Feedback_number now clf_zero s =
     (broadcast (event_of Feedback_number (JNum (Dec 0 0)) (Dec 0 0) now)
        (store Feedback_number (record_of Feedback_number (JNum (Dec 0 0)) (Dec 0 0) now) s),
      success ''Feedback number received'') \<and>
   submit Mc_data now mc_rep_zero s =
     (broadcast (event_of Mc_data six_params (Dec 0 0) now)
        (store Mc_data (record_of Mc_data six_params (Dec 0 0) now) s),
      success ''Motion correction data received'')"
proof (intro conjI impI)
  assume "c \<noteq> Mc_data"
  then show "(status (snd (submit c now b s)) = 400) =
        (b \<noteq> JUndefined \<and> b \<noteq> JNull \<and>
         (get_prop b (payload_field c) = JUndefined \<or> get_prop b ''rep'' = JUndefined))"
    unfolding submit_400_iff by (cases c) simp_all
next
  show "(status (snd (submit Mc_data now b s)) = 400) =
        (b \<noteq> JUndefined \<and> b \<noteq> JNull \<and>
         (\<not> ToBoolean (get_prop b ''params'') \<or> \<not> Array_isArray (get_prop b ''params'') \<or>
          get_prop b ''rep'' = JUndefined))"
    unfolding submit_400_iff by simp
next
  assume "b \<noteq> JUndefined \<and> b \<noteq> JNull \<and> \<not> ToBoolean (get_prop b ''params'')"
  then have "submit Mc_data now b s = (s, bad_request (missing_message Mc_data))"
    by (intro submit_missing) simp_all
  then show "submit Mc_data now b s =
        (s, \<lparr>status = 400,
             body = JObj [(''error'', JStr ''Missing required fields: params (array), rep'')]\<rparr>)"
    by (simp add: bad_request_def)
next
  assume a: "c \<noteq> Mc_data \<and> b \<noteq> JUndefined \<and> b \<noteq> JNull \<and>
    get_prop b (payload_field c) \<noteq> JUndefined \<and>
    (\<not> ToBoolean (get_prop b (payload_field c)) \<or>
     ToString (get_prop b (payload_field c)) \<noteq> None) \<and>
    get_prop b ''rep'' \<noteq> JUndefined \<and>
    (\<not> ToBoolean (get_prop b ''rep'') \<or> ToString (get_prop b ''rep'') \<noteq> None)"
  then have m: "\<not> missing_required c b" by (simp add: missing_required_other)
  from a have "ToString (get_prop b (payload_field c)) \<noteq> None"
    "ToString (get_prop b ''rep'') \<noteq> None"
    using falsy_printable by fastforce+
  with a have u: "\<not> unprintable c b" by (cases c) simp_all
  from a m u have "\<exists>x r. coerced_payload c (get_prop b (payload_field c)) = Some x \<and>
               parseInt (get_prop b ''rep'') = Some r \<and>
               submit c now b s = accepted c now s x r"
    by (intro submit_printable) simp_all
  then show "\<exists>x r. coerced_payload c (get_prop b (payload_field c)) = Some x \<and>
             parseInt (get_prop b ''rep'') = Some r \<and>
             submit c now b s =
               (broadcast (event_of c x r now) (store c (record_of c x r now) s),
                success (received_message c))"
    by (simp add: accepted_def)
next
  assume a: "b \<noteq> JUndefined \<and> b \<noteq> JNull \<and>
    Array_isArray (get_prop b ''params'') \<and>
    Array_join (elements (get_prop b ''params'')) '', '' \<noteq> None \<and>
    get_prop b ''rep'' \<noteq> JUndefined \<and>
    (\<not> ToBoolean (get_prop b ''rep'') \<or> ToString (get_prop b ''rep'') \<noteq> None)"
  then have m: "\<not> missing_required Mc_data b" unfolding missing_required_Mc by simp
  from a have "ToString (get_prop b ''rep'') \<noteq> None"
    using falsy_printable by fastforce
  with a have u: "\<not> unprintable Mc_data b" by simp
  from a m u have "\<exists>x r. coerced_payload Mc_data (get_prop b (payload_field Mc_data)) = Some x \<and>
               parseInt (get_prop b ''rep'') = Some r \<and>
               submit Mc_data now b s = accepted Mc_data now s x r"
    by (intro submit_printable) simp_all
  then show "\<exists>x r. coerced_payload Mc_data (get_prop b ''params'') = Some x \<and>
             parseInt (get_prop b ''rep'') = Some r \<and>
             submit Mc_data now b s =
               (broadcast (event_of Mc_data x r now) (store Mc_data (record_of Mc_data x r now) s),
                success ''Motion correction data received'')"
    by (simp add: accepted_def)
next
  have f: "parseFloat (JNum (Dec 0 0)) = Some (Dec 0 0)" by code_simp
  have i: "parseInt (JNum (Dec 0 0)) = Some (Dec 0 0)" by code_simp
  show "submit Clf_data now clf_zero s =
     (broadcast (event_of Clf_data (JNum (Dec 0 0)) (Dec 0 0) now)
        (store Clf_data (record_of Clf_data (JNum (Dec 0 0)) (Dec 0 0) now) s),
      success ''Classifier data received'')"
    by (simp add: post_clf_data_def clf_zero_def f i Let_def event_of_def record_of_def store_def)
  show "submit Feedback_status now feedback_false s =
     (broadcast (event_of Feedback_status (JBool False) (Dec 0 0) now)
        (store Feedback_status (record_of Feedback_status (JBool False) (Dec 0 0) now) s),
      success ''Neurofeedback status received'')"
    by (simp add: post_feedback_status_def feedback_false_def i Let_def event_of_def record_of_def
          store_def)
  show "submit Run_number now clf_zero s =
     (broadcast (event_of Run_number (JNum (Dec 0 0)) (Dec 0 0) now)
        (store Run_number (record_of Run_number (JNum (Dec 0 0)) (Dec 0 0) now) s),
      success ''Run number received'')"
    by (simp add: post_run_number_def clf_zero_def i Let_def event_of_def record_of_def store_def)
  show "submit Feedback_number now clf_zero s =
     (broadcast (event_of Feedback_number (JNum (Dec 0 0)) (Dec 0 0) now)
        (store Feedback_number (record_of Feedback_number (JNum (Dec 0 0)) (Dec 0 0) now) s),
      success ''Feedback number received'')"
    by (simp add: post_feedback_number_def clf_zero_def i Let_def event_of_def record_of_def
          store_def)
  have d: "declared_payload Mc_data mc_rep_zero" by code_simp
  have g: "get_prop mc_rep_zero ''params'' = six_params"
    "get_prop mc_rep_zero ''rep'' = JNum (Dec 0 0)"
    by (simp_all add: mc_rep_zero_def)
  from declared_payload_stored [OF d, of now s] g
  show "submit Mc_data now mc_rep_zero s =
     (broadcast (event_of Mc_data six_params (Dec 0 0) now)
        (store Mc_data (record_of Mc_data six_params (Dec 0 0) now) s),
      success ''Motion correction data received'')"
    by (simp add: event_of_def record_of_def)
qed

text \<open>
  The theorem at the run number 0 with the \<^verbatim>\<open>rep\<close> 0, at the \<^verbatim>\<open>params\<close> 0, and at the
  classifier value 0 and the status \<^verbatim>\<open>false\<close> with one open observer.
\<close>

theorem falsy_values_pass_validation_witness:
  "Run_number \<noteq> Mc_data \<and>
   clf_zero \<noteq> JUndefined \<and> clf_zero \<noteq> JNull \<and>
   get_prop clf_zero (payload_field Run_number) \<noteq> JUndefined \<and>
   \<not> ToBoolean (get_prop clf_zero (payload_field Run_number)) \<and>
   get_prop clf_zero ''rep'' \<noteq> JUndefined \<and> \<not> ToBoolean (get_prop clf_zero ''rep'') \<and>
   status (snd (submit Run_number example_now clf_zero one_observer)) \<noteq> 400 \<and>
   falsy_params \<noteq> JUndefined \<and> falsy_params \<noteq> JNull \<and>
   \<not> ToBoolean (get_prop falsy_params ''params'') \<and>
   submit Mc_data example_now falsy_params one_observer =
     (one_observer,
      \<lparr>status = 400,
       body = JObj [(''error'', JStr ''Missing required fields: params (array), rep'')]\<rparr>) \<and>
   submit Run_number example_now clf_zero one_observer =
     (broadcast (event_of Run_number (JNum (Dec 0 0)) (Dec 0 0) example_now)
        (store Run_number (record_of Run_number (JNum (Dec 0 0)) (Dec 0 0) example_now)
           one_observer),
      success ''Run number received'') \<and>
   outbox (fst (submit Clf_data example_now clf_zero one_observer)) 1 =
     [JSON_stringify (JObj [(''type'', JStr ''clf_data''), (''value'', JNum (Dec 0 0)),
                            (''rep'', JNum (Dec 0 0)), (''timestamp'', JStr example_now)])] \<and>
   slot Feedback_status
     (latestData (fst (submit Feedback_status example_now feedback_false one_observer))) =
     JObj [(''sent'', JBool False), (''rep'', JNum (Dec 0 0)), (''timestamp'', JStr example_now)]"
proof -
  have g: "clf_zero \<noteq> JUndefined \<and> clf_zero \<noteq> JNull \<and>
           get_prop clf_zero (payload_field Run_number) \<noteq> JUndefined \<and>
           \<not> ToBoolean (get_prop clf_zero (payload_field Run_number)) \<and>
           get_prop clf_zero ''rep'' \<noteq> JUndefined \<and> \<not> ToBoolean (get_prop clf_zero ''rep'')"
    by code_simp
  have h: "falsy_params \<noteq> JUndefined \<and> falsy_params \<noteq> JNull \<and>
           \<not> ToBoolean (get_prop falsy_params ''params'')"
    by code_simp
  have o: "outbox (fst (submit Clf_data example_now clf_zero one_observer)) 1 =
     [JSON_stringify (JObj [(''type'', JStr ''clf_data''), (''value'', JNum (Dec 0 0)),
                            (''rep'', JNum (Dec 0 0)), (''timestamp'', JStr example_now)])]"
    by code_simp
  note t = falsy_values_pass_validation
  from t [of Run_number example_now clf_zero one_observer] g
  have 1: "status (snd (submit Run_number example_now clf_zero one_observer)) \<noteq> 400"
    by simp
  from t [of Run_number example_now falsy_params one_observer] h
  have 2: "submit Mc_data example_now falsy_params one_observer =
     (one_observer,
      \<lparr>status = 400,
       body = JObj [(''error'', JStr ''Missing required fields: params (array), rep'')]\<rparr>)"
    by blast
  from t [of Run_number example_now clf_zero one_observer]
  have 3: "submit Run_number example_now clf_zero one_observer =
     (broadcast (event_of Run_number (JNum (Dec 0 0)) (Dec 0 0) example_now)
        (store Run_number (record_of Run_number (JNum (Dec 0 0)) (Dec 0 0) example_now)
           one_observer),
      success ''Run number received'')"
    and 4: "submit Feedback_status example_now feedback_false one_observer =
     (broadcast (event_of Feedback_status (JBool False) (Dec 0 0) example_now)
        (store Feedback_status (record_of Feedback_status (JBool False) (Dec 0 0) example_now)
           one_observer),
      success ''Neurofeedback status received'')"
    by blast+
  have 5: "slot Feedback_status
     (latestData (fst (submit Feedback_status example_now feedback_false one_observer))) =
     JObj [(''sent'', JBool False), (''rep'', JNum (Dec 0 0)), (''timestamp'', JStr example_now)]"
    using 4 by (simp add: store_def record_of_def)
  from g h 1 2 3 o 5 show ?thesis by simp
qed

text \<open>
  Claim C9 as stated fails: the \<^verbatim>\<open>params\<close> 0 is present and falsy, and the submission is
  answered 400 as missing a required field.
\<close>

theorem mc_data_falsy_params_rejected:
  "get_prop falsy_params ''params'' = JNum (Dec 0 0) \<and>
   get_prop falsy_params ''rep'' = JNum (Dec 1 0) \<and>
   submit Mc_data example_now falsy_params one_observer =
     (one_observer,
      \<lparr>status = 400,
       body = JObj [(''error'', JStr ''Missing required fields: params (array), rep'')]\<rparr>)"
proof -
  have "status (snd (submit Mc_data example_now falsy_params one_observer)) = 400" by code_simp
  from submit_400 [OF this] show ?thesis
    by (simp add: bad_request_def falsy_params_def)
qed

text \<open>
  Claim C10. \<^verbatim>\<open>broadcast\<close> changes neither \<^verbatim>\<open>latestData\<close> nor the connection set (a socket
  that is not open is skipped and stays in the set), and an event other than a connection,
  a close or an error leaves the connection set as it was.
\<close>

theorem broadcast_read_only:
  "latestData (broadcast event s) = latestData s \<and>
   clients (broadcast event s) = clients s \<and>
   ((\<forall>ws. e \<noteq> Connection ws \<and> e \<noteq> Close ws \<and> e \<noteq> Error ws) \<longrightarrow>
      clients (step e s) = clients s)"
  unfolding step_clients by (cases e) simp_all

text \<open>The theorem at a classifier submission.\<close>

theorem broadcast_read_only_witness:
  "(\<forall>ws. Post Clf_data example_now clf_example \<noteq> Connection ws \<and>
         Post Clf_data example_now clf_example \<noteq> Close ws \<and>
         Post Clf_data example_now clf_example \<noteq> Error ws) \<and>
   clients (step (Post Clf_data example_now clf_example) closing_observer) = clients closing_observer \<and>
   clients (broadcast clf_example closing_observer) = [1, 2]"
proof -
  have c: "clients closing_observer = [1, 2]" by code_simp
  from broadcast_read_only [of clf_example closing_observer "Post Clf_data example_now clf_example"] c
  show ?thesis by simp
qed

end
